theory Spec2Isabelle
  imports Main "HOL-Library.Word"
begin

unbundle bit_operations_syntax

section \<open>The thread entity of \<^verbatim>\<open>src/thread.cc\<close>\<close>

text \<open>
  Object pointers (\<^verbatim>\<open>Object*\<close>, \<^verbatim>\<open>Throwable*\<close>, \<^verbatim>\<open>Method**\<close>) are addresses;
  \<^verbatim>\<open>NULL\<close> is address 0.
\<close>

type_synonym ptr = nat

definition NULL :: ptr where
  "NULL = 0"

text \<open>
  The thread states the file names (\<^verbatim>\<open>kRunnable\<close>, \<^verbatim>\<open>kNative\<close>, \<^verbatim>\<open>kVmWait\<close>,
  \<^verbatim>\<open>kSuspended\<close>, \<^verbatim>\<open>kStarting\<close>, \<^verbatim>\<open>kTerminated\<close>).
\<close>

datatype ThreadState = kTerminated | kRunnable | kStarting | kNative | kVmWait | kSuspended

text \<open>
  A failed \<^verbatim>\<open>CHECK\<close>, a \<^verbatim>\<open>LOG(FATAL)\<close> or a JNI abort ends the process: \<open>Fatal\<close>
  carries the lines logged on the failing path, the fatal message last. The counters are
  C++ \<^verbatim>\<open>int\<close>s, whose overflow is undefined: \<open>SignedOverflow\<close> is the outcome of an
  addition that leaves the 32-bit range. \<open>NullDereference\<close> is the outcome of calling
  a member through a \<^verbatim>\<open>NULL\<close> pointer, \<open>OutOfBounds\<close> that of reading a string or
  an array outside its bounds.
\<close>

datatype error = Fatal "string list" | SignedOverflow | NullDereference | OutOfBounds

text \<open>The fields of \<^verbatim>\<open>Thread\<close> that the functions below read or write.\<close>

record Thread =
  state :: ThreadState
  suspend_count :: int
  debug_suspend_count :: int
  name :: string
  exception :: ptr
  throwing_OutOfMemoryError :: bool
  long_jump_context :: ptr
  no_thread_suspension :: nat
  last_no_thread_suspension_cause :: "string option"

definition kThreadNameDuringStartup :: string where
  "kThreadNameDuringStartup = ''<native thread without managed peer>''"

text \<open>
  The constructor's initialiser list: both counters 0, no exception, the start-up name.
  The state of a new thread is \<^verbatim>\<open>kNative\<close>.
\<close>

definition new_Thread :: Thread where
  "new_Thread = \<lparr> state = kNative, suspend_count = 0, debug_suspend_count = 0,
     name = kThreadNameDuringStartup, exception = NULL,
     throwing_OutOfMemoryError = False, long_jump_context = NULL,
     no_thread_suspension = 0, last_no_thread_suspension_cause = None \<rparr>"

definition IsStillStarting :: "Thread \<Rightarrow> bool" where
  "IsStillStarting t = (name t = kThreadNameDuringStartup)"

section \<open>Suspend accounting: \<^verbatim>\<open>Thread::ModifySuspendCount\<close>\<close>

text \<open>
  What the function takes from outside the thread: whether the build checks
  \<^verbatim>\<open>DCHECK\<close>s, whether the caller holds \<^verbatim>\<open>thread_suspend_count_lock_\<close>, whether the two
  try-locks of \<^verbatim>\<open>UnsafeLogFatalForSuspendCount\<close> leave their lock held, how the thread
  pointer prints, and what \<^verbatim>\<open>ThreadList::DumpLocked\<close> writes.
\<close>

record SuspendEnv =
  kIsDebugBuild :: bool
  suspend_count_lock_held :: bool
  mutator_lock_shared_held_after_try :: bool
  thread_list_lock_held_after_try :: bool
  self_printed :: string
  thread_list_dump :: string

definition in_int_range :: "int \<Rightarrow> bool" where
  "in_int_range x = (- (2 ^ 31) \<le> x \<and> x < 2 ^ 31)"

text \<open>
  \<^verbatim>\<open>UnsafeLogFatalForSuspendCount\<close>: a warning for each lock it could not take, then
  the fatal message, which ends with the dump of the thread list.
\<close>

definition UnsafeLogFatalForSuspendCount :: "SuspendEnv \<Rightarrow> error" where
  "UnsafeLogFatalForSuspendCount env =
     Fatal
       ((if \<not> mutator_lock_shared_held_after_try env
         then [''Dumping thread list without holding mutator_lock_''] else []) @
        (if \<not> thread_list_lock_held_after_try env
         then [''Dumping thread list without holding thread_list_lock_''] else []) @
        [self_printed env @ '' suspend count already zero.\<newline>'' @ thread_list_dump env])"

definition ModifySuspendCount :: "SuspendEnv \<Rightarrow> int \<Rightarrow> bool \<Rightarrow> Thread \<Rightarrow> error + Thread" where
  "ModifySuspendCount env delta for_debugger t =
     (if kIsDebugBuild env \<and>
         \<not> (delta = -1 \<or> delta = 1 \<or> delta = - debug_suspend_count t)
      then Inl (Fatal [''Check failed: delta == -1 || delta == +1 || delta == -debug_suspend_count_''])
      else if kIsDebugBuild env \<and> \<not> (debug_suspend_count t \<le> suspend_count t)
      then Inl (Fatal [''Check failed: suspend_count_ >= debug_suspend_count_''])
      else if kIsDebugBuild env \<and> \<not> suspend_count_lock_held env
      then Inl (Fatal [''Check failed: thread_suspend_count_lock_ held''])
      else if delta = -1 \<and> suspend_count t \<le> 0
      then (if \<not> IsStillStarting t then Inl (UnsafeLogFatalForSuspendCount env) else Inr t)
      else if \<not> in_int_range (suspend_count t + delta)
      then Inl SignedOverflow
      else if for_debugger
      then (if \<not> in_int_range (debug_suspend_count t + delta) then Inl SignedOverflow
            else Inr (t\<lparr> suspend_count := suspend_count t + delta,
                       debug_suspend_count := debug_suspend_count t + delta \<rparr>))
      else Inr (t\<lparr> suspend_count := suspend_count t + delta \<rparr>))"

text \<open>The invariant of the data model: \<open>suspend_count >= debug_suspend_count >= 0\<close>.\<close>

definition suspend_invariant :: "Thread \<Rightarrow> bool" where
  "suspend_invariant t = (debug_suspend_count t \<le> suspend_count t \<and> 0 \<le> debug_suspend_count t)"

text \<open>
  A sequence of calls on one thread, each a pair \<open>(delta, for_debugger)\<close>; a fatal call
  ends the sequence, as the abort does.
\<close>

fun ModifySuspendCount_calls :: "SuspendEnv \<Rightarrow> Thread \<Rightarrow> (int \<times> bool) list \<Rightarrow> error + Thread" where
  "ModifySuspendCount_calls env t [] = Inr t"
| "ModifySuspendCount_calls env t (c # cs) =
     (case ModifySuspendCount env (fst c) (snd c) t of
        Inl e \<Rightarrow> Inl e
      | Inr t' \<Rightarrow> ModifySuspendCount_calls env t' cs)"

text \<open>
  \<open>calls_respect P env t cs\<close>: every call of \<open>cs\<close> satisfies the contract \<open>P\<close> in the
  state it is made in.
\<close>

fun calls_respect :: "(Thread \<Rightarrow> int \<times> bool \<Rightarrow> bool) \<Rightarrow> SuspendEnv \<Rightarrow> Thread \<Rightarrow> (int \<times> bool) list \<Rightarrow> bool" where
  "calls_respect P env t [] = True"
| "calls_respect P env t (c # cs) =
     (P t c \<and>
      (case ModifySuspendCount env (fst c) (snd c) t of
         Inl e \<Rightarrow> True
       | Inr t' \<Rightarrow> calls_respect P env t' cs))"

text \<open>
  The contract as the specification words it: the delta is \<open>+1\<close>, \<open>-1\<close> or
  \<open>-debug_suspend_count\<close>.
\<close>

definition api_contract :: "Thread \<Rightarrow> int \<times> bool \<Rightarrow> bool" where
  "api_contract t c = (fst c = 1 \<or> fst c = -1 \<or> fst c = - debug_suspend_count t)"

text \<open>
  The contract the callers in the file keep: a decrement undoes an increment of its own
  kind (for the debugger only while a debugger request is outstanding, otherwise only
  while a request that is not the debugger's is outstanding) or meets a counter that is
  already \<open>\<le> 0\<close>; the force-clearing delta is passed with \<open>for_debugger\<close>.
\<close>

definition paired_contract :: "Thread \<Rightarrow> int \<times> bool \<Rightarrow> bool" where
  "paired_contract t c =
     (fst c = 1 \<or>
      (fst c = -1 \<and>
         (suspend_count t \<le> 0 \<or>
          (if snd c then 0 < debug_suspend_count t
           else debug_suspend_count t < suspend_count t))) \<or>
      (fst c = - debug_suspend_count t \<and> snd c))"

text \<open>An environment for the concrete runs below: a debug build, the lock held.\<close>

definition example_env :: SuspendEnv where
  "example_env = \<lparr> kIsDebugBuild = True, suspend_count_lock_held = True,
     mutator_lock_shared_held_after_try = True, thread_list_lock_held_after_try = False,
     self_printed = ''0x1000'', thread_list_dump = ''DALVIK THREADS:'' \<rparr>"

section \<open>Walking the stack\<close>

text \<open>
  Modelled from the spec: \<^verbatim>\<open>StackVisitor::WalkStack\<close> is declared in \<^verbatim>\<open>stack.h\<close> and
  defined in \<^verbatim>\<open>stack.cc\<close>, which are not among the sources. The specification (4.3)
  says that the walker produces a finite, single-pass sequence of frames from innermost
  to outermost and calls the visitor's callback on each, which answers "continue" or
  "stop". The frames are a list, innermost first; the callback is the visitor's
  \<^verbatim>\<open>VisitFrame\<close>, which may also end the process.
\<close>

fun WalkStack :: "('f \<Rightarrow> 'v \<Rightarrow> error + ('v \<times> bool)) \<Rightarrow> 'f list \<Rightarrow> 'v \<Rightarrow> error + 'v" where
  "WalkStack VisitFrame [] v = Inr v"
| "WalkStack VisitFrame (f # fs) v =
     (case VisitFrame f v of
        Inl e \<Rightarrow> Inl e
      | Inr (v', continue) \<Rightarrow> if continue then WalkStack VisitFrame fs v' else Inr v')"

text \<open>
  What the visitors ask of a \<^verbatim>\<open>Method*\<close>: the object model is outside the file, so the
  answers are functions of the method's address.
\<close>

record MethodModel =
  IsRuntimeMethod :: "ptr \<Rightarrow> bool"
  IsNative :: "ptr \<Rightarrow> bool"
  IsProxyMethod :: "ptr \<Rightarrow> bool"
  PrettyMethod :: "ptr \<Rightarrow> string"

section \<open>The dump visitor: \<^verbatim>\<open>StackDumpVisitor\<close>\<close>

text \<open>\<^verbatim>\<open>operator<<\<close> on an \<^verbatim>\<open>int\<close>: its decimal digits, with a minus sign when negative.\<close>

fun decimal_nat :: "nat \<Rightarrow> string" where
  "decimal_nat n =
     (if n < 10 then [''0123456789'' ! n]
      else decimal_nat (n div 10) @ [''0123456789'' ! (n mod 10)])"

definition decimal_int :: "int \<Rightarrow> string" where
  "decimal_int i = (if i < 0 then CHR ''-'' # decimal_nat (nat (- i)) else decimal_nat (nat i))"

text \<open>
  A frame as a visitor reads it through \<^verbatim>\<open>GetMethod()\<close> and \<^verbatim>\<open>GetDexPc()\<close>; the
  visitors that read more of a frame extend the record.
\<close>

record Frame =
  GetMethod :: ptr
  GetDexPc :: nat

text \<open>
  The rest of what \<^verbatim>\<open>VisitFrame\<close> reads: the dex cache of the declaring class
  (\<^verbatim>\<open>NULL\<close> on bad input), the line of a dex pc, the source file (\<open>None\<close> for
  \<^verbatim>\<open>NULL\<close>), and what \<^verbatim>\<open>Monitor::DescribeWait\<close> and \<^verbatim>\<open>Monitor::DescribeLocks\<close> write.
\<close>

record DumpEnv = MethodModel +
  GetDexCache :: "ptr \<Rightarrow> ptr"
  GetLineNumFromPC :: "ptr \<Rightarrow> nat \<Rightarrow> int"
  GetDeclaringClassSourceFile :: "ptr \<Rightarrow> string option"
  DescribeWait :: string
  DescribeLocks :: "Frame \<Rightarrow> string"

text \<open>
  The visitor's fields. The stream \<open>os\<close> is the list of the pieces written to it, in
  order: its content is their concatenation. The two counters are \<^verbatim>\<open>int\<close>s that count
  the frames of one stack, far below the range of an \<^verbatim>\<open>int\<close>. The destructor's line for a
  stack without frames is written after the walk and is not part of \<^verbatim>\<open>VisitFrame\<close>.
\<close>

record StackDumpVisitor =
  os :: "string list"
  can_allocate :: bool
  last_method :: ptr
  last_line_number :: int
  repetition_count :: int
  frame_count :: int

definition new_StackDumpVisitor :: "bool \<Rightarrow> StackDumpVisitor" where
  "new_StackDumpVisitor can_alloc =
     \<lparr> os = [], can_allocate = can_alloc, last_method = NULL, last_line_number = 0,
       repetition_count = 0, frame_count = 0 \<rparr>"

definition kMaxRepetition :: int where
  "kMaxRepetition = 3"

text \<open>The line \<^verbatim>\<open>"  at <method>(<file>:<line>)"\<close> of a frame.\<close>

definition frame_line :: "DumpEnv \<Rightarrow> ptr \<Rightarrow> int \<Rightarrow> string" where
  "frame_line env m line_number =
     ''  at '' @ PrettyMethod env m @
     (if IsNative env m then ''(Native method)''
      else ''('' @ (case GetDeclaringClassSourceFile env m of
                      Some source_file \<Rightarrow> source_file
                    | None \<Rightarrow> ''unavailable'') @
           '':'' @ decimal_int line_number @ '')'') @
     ''\<newline>''"

definition repeated_line :: "int \<Rightarrow> string" where
  "repeated_line n = ''  ... repeated '' @ decimal_int n @ '' times\<newline>''"

text \<open>The line number of a frame: \<open>-1\<close> when the declaring class has no dex cache.\<close>

definition frame_line_number :: "DumpEnv \<Rightarrow> Frame \<Rightarrow> int" where
  "frame_line_number env f =
     (if GetDexCache env (GetMethod f) \<noteq> NULL
      then GetLineNumFromPC env (GetMethod f) (GetDexPc f) else -1)"

definition StackDumpVisitor_VisitFrame ::
    "DumpEnv \<Rightarrow> Frame \<Rightarrow> StackDumpVisitor \<Rightarrow> error + (StackDumpVisitor \<times> bool)" where
  "StackDumpVisitor_VisitFrame env f v =
     (let m = GetMethod f in
      if m = NULL then Inl NullDereference
      else if IsRuntimeMethod env m then Inr (v, True)
      else
        let line_number = frame_line_number env f;
            v1 =
              (if line_number = last_line_number v \<and> last_method v = m
               then v\<lparr> repetition_count := repetition_count v + 1 \<rparr>
               else (if repetition_count v \<ge> kMaxRepetition
                     then v\<lparr> os := os v @ [repeated_line (repetition_count v - kMaxRepetition)] \<rparr>
                     else v)
                    \<lparr> repetition_count := 0, last_line_number := line_number,
                      last_method := m \<rparr>);
            v2 =
              (if repetition_count v1 < kMaxRepetition
               then v1\<lparr> os := os v1 @ [frame_line env m line_number] @
                              (if frame_count v1 = 0 then [DescribeWait env] else []) @
                              (if can_allocate v1 then [DescribeLocks env f] else []) \<rparr>
               else v1)
        in Inr (v2\<lparr> frame_count := frame_count v2 + 1 \<rparr>, True))"

text \<open>A method table and frames for the concrete runs: methods at 100 and 200.\<close>

definition example_dump_env :: DumpEnv where
  "example_dump_env =
     \<lparr> IsRuntimeMethod = (\<lambda>m. False), IsNative = (\<lambda>m. False), IsProxyMethod = (\<lambda>m. False),
       PrettyMethod = (\<lambda>m. if m = 100 then ''Foo.loop'' else ''Foo.main''),
       GetDexCache = (\<lambda>m. 1), GetLineNumFromPC = (\<lambda>m pc. int pc),
       GetDeclaringClassSourceFile = (\<lambda>m. Some ''Foo.java''),
       DescribeWait = [], DescribeLocks = (\<lambda>f. []) \<rparr>"

section \<open>The reference resolver: \<^verbatim>\<open>Thread::DecodeJObject\<close>\<close>

datatype IndirectRefKind = kSirtOrInvalid | kLocal | kGlobal | kWeakGlobal

text \<open>
  What the resolver reads outside the function: the kind tag of a handle
  (\<^verbatim>\<open>GetIndirectRefKind\<close>), the \<^verbatim>\<open>Get\<close> of the three reference tables (the thread's
  locals, the VM's globals and weak globals), the two sentinel addresses
  \<^verbatim>\<open>kClearedJniWeakGlobal\<close> and \<^verbatim>\<open>kInvalidIndirectRefObject\<close>, the compatibility flag, the
  thread's chain of stack indirect reference tables (each the addresses of its entries,
  innermost first) with \<^verbatim>\<open>ShadowFramesContain\<close>, the memory word a SIRT entry holds, and how
  a kind and a pointer print in the abort message. All of these are declared in headers
  that are not among the sources, so they are parameters.
\<close>

record DecodeEnv =
  CanAccessDirectReferences :: bool
  checks_DCHECK :: bool
  GetIndirectRefKind :: "ptr \<Rightarrow> IndirectRefKind"
  locals_Get :: "ptr \<Rightarrow> ptr"
  globals_Get :: "ptr \<Rightarrow> ptr"
  weak_globals_Get :: "ptr \<Rightarrow> ptr"
  kClearedJniWeakGlobal :: ptr
  kInvalidIndirectRefObject :: ptr
  work_around_app_jni_bugs :: bool
  top_sirt :: "ptr list list"
  ShadowFramesContain :: "ptr \<Rightarrow> bool"
  read_word :: "ptr \<Rightarrow> ptr"
  ToStr :: "IndirectRefKind \<Rightarrow> string"
  print_pointer :: "ptr \<Rightarrow> string"

text \<open>\<^verbatim>\<open>Thread::SirtContains\<close>: the chain of tables first, then the shadow frames.\<close>

fun SirtContains_chain :: "ptr list list \<Rightarrow> ptr \<Rightarrow> bool" where
  "SirtContains_chain [] sirt_entry = False"
| "SirtContains_chain (cur # link) sirt_entry =
     (if sirt_entry \<in> set cur then True else SirtContains_chain link sirt_entry)"

definition SirtContains :: "DecodeEnv \<Rightarrow> ptr \<Rightarrow> bool" where
  "SirtContains env obj =
     (if SirtContains_chain (top_sirt env) obj then True else ShadowFramesContain env obj)"

text \<open>
  The calls the resolver makes on the heap: \<^verbatim>\<open>Heap::VerifyObject\<close>, the consistency
  check of an object.
\<close>

datatype heap_call = VerifyObject ptr

text \<open>
  The end of \<^verbatim>\<open>DecodeJObject\<close>, after the \<^verbatim>\<open>switch\<close>: \<^verbatim>\<open>JniAbortF\<close> on a \<^verbatim>\<open>NULL\<close>
  result, \<^verbatim>\<open>VerifyObject\<close> on a result that is not the invalid sentinel. \<^verbatim>\<open>JniAbortF\<close> is
  defined outside the sources; the specification (4.5 and 7) has it fatal, so it ends
  the run with its message. The function returns the object together with the heap
  calls it made.
\<close>

definition DecodeJObject_check ::
    "DecodeEnv \<Rightarrow> IndirectRefKind \<Rightarrow> ptr \<Rightarrow> ptr \<Rightarrow> error + (ptr \<times> heap_call list)" where
  "DecodeJObject_check env kind obj result =
     (if result = NULL
      then Inl (Fatal [''use of deleted '' @ ToStr env kind @ '' '' @ print_pointer env obj])
      else if result \<noteq> kInvalidIndirectRefObject env
      then Inr (result, [VerifyObject result])
      else Inr (result, []))"

definition DecodeJObject :: "DecodeEnv \<Rightarrow> ptr \<Rightarrow> error + (ptr \<times> heap_call list)" where
  "DecodeJObject env obj =
     (if checks_DCHECK env \<and> \<not> CanAccessDirectReferences env
      then Inl (Fatal [''Check failed: CanAccessDirectReferences()''])
      else if obj = NULL then Inr (NULL, [])
      else
        (case GetIndirectRefKind env obj of
           kLocal \<Rightarrow> DecodeJObject_check env kLocal obj (locals_Get env obj)
         | kGlobal \<Rightarrow> DecodeJObject_check env kGlobal obj (globals_Get env obj)
         | kWeakGlobal \<Rightarrow>
             (if weak_globals_Get env obj = kClearedJniWeakGlobal env
              then Inr (NULL, [])
              else DecodeJObject_check env kWeakGlobal obj (weak_globals_Get env obj))
         | kSirtOrInvalid \<Rightarrow>
             DecodeJObject_check env kSirtOrInvalid obj
               (if SirtContains env obj then read_word env obj
                else if work_around_app_jni_bugs env then obj
                else kInvalidIndirectRefObject env)))"

text \<open>
  The table a recognised kind is looked up in (the stack kind is not looked up in a
  table: it reads as \<open>None\<close>).
\<close>

definition table_entry :: "DecodeEnv \<Rightarrow> ptr \<Rightarrow> ptr option" where
  "table_entry env obj =
     (case GetIndirectRefKind env obj of
        kLocal \<Rightarrow> Some (locals_Get env obj)
      | kGlobal \<Rightarrow> Some (globals_Get env obj)
      | kWeakGlobal \<Rightarrow> Some (weak_globals_Get env obj)
      | kSirtOrInvalid \<Rightarrow> None)"

text \<open>
  A resolver for the concrete runs: the kind is the handle modulo 4 (1 local, 2 global,
  3 weak global); local 5 holds object 4096, global 6 is deleted, weak global 7 is
  cleared, weak global 11 is deleted.
\<close>

definition example_decode_env :: DecodeEnv where
  "example_decode_env =
     \<lparr> CanAccessDirectReferences = True, checks_DCHECK = True,
       GetIndirectRefKind = (\<lambda>r. if r mod 4 = 1 then kLocal else if r mod 4 = 2 then kGlobal
                                  else if r mod 4 = 3 then kWeakGlobal else kSirtOrInvalid),
       locals_Get = (\<lambda>r. if r = 5 then 4096 else 0),
       globals_Get = (\<lambda>r. 0),
       weak_globals_Get = (\<lambda>r. if r = 7 then 3735882292 else 0),
       kClearedJniWeakGlobal = 3735882292,
       kInvalidIndirectRefObject = 3735896865,
       work_around_app_jni_bugs = False,
       top_sirt = [], ShadowFramesContain = (\<lambda>r. False), read_word = (\<lambda>r. 0),
       ToStr = (\<lambda>k. case k of kSirtOrInvalid \<Rightarrow> ''SIRT or invalid reference''
                       | kLocal \<Rightarrow> ''local reference'' | kGlobal \<Rightarrow> ''global reference''
                       | kWeakGlobal \<Rightarrow> ''weak global reference''),
       print_pointer = (\<lambda>r. ''0x'' @ decimal_nat r) \<rparr>"

section \<open>Throwing: the exception slot and \<^verbatim>\<open>Thread::ThrowOutOfMemoryError\<close>\<close>

text \<open>
  Modelled from the spec: \<^verbatim>\<open>GetException\<close>, \<^verbatim>\<open>SetException\<close>, \<^verbatim>\<open>ClearException\<close> and
  \<^verbatim>\<open>IsExceptionPending\<close> are inline members declared in \<^verbatim>\<open>thread.h\<close>, which is not among the
  sources. The specification (3) gives the thread one exception slot holding at most
  one pending exception: they read, write, clear and test that slot.
\<close>

definition GetException :: "Thread \<Rightarrow> ptr" where
  "GetException t = exception t"

definition SetException :: "ptr \<Rightarrow> Thread \<Rightarrow> Thread" where
  "SetException new_exception t = t\<lparr> exception := new_exception \<rparr>"

definition ClearException :: "Thread \<Rightarrow> Thread" where
  "ClearException t = t\<lparr> exception := NULL \<rparr>"

definition IsExceptionPending :: "Thread \<Rightarrow> bool" where
  "IsExceptionPending t = (exception t \<noteq> NULL)"

text \<open>
  The thread together with the objects allocated on the heap so far: the JNI calls below
  allocate, and a call may run code that changes the thread (it may throw, also an
  \<^verbatim>\<open>OutOfMemoryError\<close> of its own).
\<close>

record VM =
  thread :: Thread
  allocated :: "ptr list"

text \<open>
  The JNI environment and the runtime, none of it in the sources: each call is a
  function of the machine state that returns its result and the new state.
  The lines logged with \<^verbatim>\<open>LOG(ERROR)\<close>, among them the dump of the thread in the
  recursive case, change nothing here and are left out.
\<close>

record ThrowEnv =
  Throwable_Dump :: "ptr \<Rightarrow> string"
  ExceptionOccurred :: "VM \<Rightarrow> ptr \<times> VM"
  FindClass :: "string \<Rightarrow> VM \<Rightarrow> ptr \<times> VM"
  IsStarted :: bool
  AllocObject :: "ptr \<Rightarrow> VM \<Rightarrow> ptr \<times> VM"
  references :: "VM \<Rightarrow> DecodeEnv"
  AllocFromModifiedUtf8 :: "string \<Rightarrow> VM \<Rightarrow> ptr \<times> VM"
  art_ThrowNewException :: "ptr \<Rightarrow> string \<Rightarrow> ptr \<Rightarrow> VM \<Rightarrow> int \<times> VM"
  GetPreAllocatedOutOfMemoryError :: ptr

definition JNI_OK :: int where
  "JNI_OK = 0"

text \<open>\<^verbatim>\<open>CHECK(IsExceptionPending())\<close> after a JNI call that failed.\<close>

definition CHECK_IsExceptionPending :: "VM \<Rightarrow> error + VM" where
  "CHECK_IsExceptionPending vm =
     (if IsExceptionPending (thread vm) then Inr vm
      else Inl (Fatal [''Check failed: IsExceptionPending()'']))"

definition ThrowNewWrappedException :: "ThrowEnv \<Rightarrow> string \<Rightarrow> string \<Rightarrow> VM \<Rightarrow> error + VM" where
  "ThrowNewWrappedException env exception_class_descriptor msg vm =
     (case exception_class_descriptor of
        [] \<Rightarrow> Inl (Fatal [''Check failed: 'L' == exception_class_descriptor[0]''])
      | c # tail \<Rightarrow>
          if c \<noteq> CHR ''L''
          then Inl (Fatal [''Check failed: 'L' == exception_class_descriptor[0]''])
          else if tail = [] then Inl OutOfBounds
          else if last tail \<noteq> CHR '';''
          then Inl (Fatal [''Check failed: ';' == descriptor[descriptor.length() - 1]''])
          else
            let descriptor = butlast tail;
                (cause, vm1) = ExceptionOccurred env vm;
                vm2 = vm1\<lparr> thread := ClearException (thread vm1) \<rparr>;
                (exception_class, vm3) = FindClass env descriptor vm2
            in if exception_class = NULL then CHECK_IsExceptionPending vm3
               else if \<not> IsStarted env
               then
                 (let (exc, vm4) = AllocObject env exception_class vm3
                  in if exc \<noteq> NULL
                     then
                       (case DecodeJObject (references env vm4) exc of
                          Inl e \<Rightarrow> Inl e
                        | Inr (t, calls) \<Rightarrow>
                            let (detail, vm5) = AllocFromModifiedUtf8 env msg vm4
                            in if t = NULL then Inl NullDereference
                               else Inr (vm5\<lparr> thread := SetException t (thread vm5) \<rparr>))
                     else CHECK_IsExceptionPending vm4)
               else
                 (let (rc, vm4) = art_ThrowNewException env exception_class msg cause vm3
                  in if rc \<noteq> JNI_OK then CHECK_IsExceptionPending vm4 else Inr vm4))"

text \<open>\<^verbatim>\<open>AssertNoPendingException\<close>, then \<^verbatim>\<open>ThrowNewWrappedException\<close>.\<close>

definition ThrowNewException :: "ThrowEnv \<Rightarrow> string \<Rightarrow> string \<Rightarrow> VM \<Rightarrow> error + VM" where
  "ThrowNewException env exception_class_descriptor msg vm =
     (if IsExceptionPending (thread vm)
      then Inl (Fatal [''No pending exception expected: '' @
                       Throwable_Dump env (GetException (thread vm))])
      else ThrowNewWrappedException env exception_class_descriptor msg vm)"

definition ThrowOutOfMemoryError :: "ThrowEnv \<Rightarrow> string \<Rightarrow> VM \<Rightarrow> error + VM" where
  "ThrowOutOfMemoryError env msg vm =
     (if \<not> throwing_OutOfMemoryError (thread vm)
      then
        (case ThrowNewException env ''Ljava/lang/OutOfMemoryError;'' msg
                (vm\<lparr> thread := (thread vm)\<lparr> throwing_OutOfMemoryError := True \<rparr> \<rparr>) of
           Inl e \<Rightarrow> Inl e
         | Inr vm' \<Rightarrow> Inr (vm'\<lparr> thread := (thread vm')\<lparr> throwing_OutOfMemoryError := False \<rparr> \<rparr>))
      else
        Inr (vm\<lparr> thread :=
               (SetException (GetPreAllocatedOutOfMemoryError env) (thread vm))
                 \<lparr> throwing_OutOfMemoryError := False \<rparr> \<rparr>))"

text \<open>
  A started runtime for the concrete runs. Its \<^verbatim>\<open>ThrowNewException\<close> of
  \<^verbatim>\<open>jni_internal\<close> finds the heap full: the allocation fails and the heap throws an
  \<^verbatim>\<open>OutOfMemoryError\<close> on the same thread, a nested call of \<open>ThrowOutOfMemoryError\<close>.
  The environment of the nested call is never consulted (the guard is set), so its JNI
  calls do nothing.
\<close>

definition idle_throw_env :: ThrowEnv where
  "idle_throw_env =
     \<lparr> Throwable_Dump = (\<lambda>e. ''java.lang.OutOfMemoryError''),
       ExceptionOccurred = (\<lambda>vm. (exception (thread vm), vm)),
       FindClass = (\<lambda>d vm. (NULL, vm)),
       IsStarted = True,
       AllocObject = (\<lambda>c vm. (NULL, vm)),
       references = (\<lambda>vm. example_decode_env),
       AllocFromModifiedUtf8 = (\<lambda>s vm. (NULL, vm)),
       art_ThrowNewException = (\<lambda>c s cause vm. (-1, vm)),
       GetPreAllocatedOutOfMemoryError = 8192 \<rparr>"

definition heap_full_env :: ThrowEnv where
  "heap_full_env =
     idle_throw_env
       \<lparr> FindClass := (\<lambda>d vm. (4000, vm)),
         art_ThrowNewException :=
           (\<lambda>c s cause vm.
              case ThrowOutOfMemoryError idle_throw_env ''String allocation failed'' vm of
                Inl e \<Rightarrow> (-1, vm)
              | Inr vm' \<Rightarrow> (-1, vm')) \<rparr>"

definition example_vm :: VM where
  "example_vm = \<lparr> thread = new_Thread, allocated = [] \<rparr>"

section \<open>Exception delivery: \<^verbatim>\<open>CatchBlockStackVisitor\<close> and \<^verbatim>\<open>Thread::DeliverException\<close>\<close>

text \<open>
  Modelled from the spec: \<^verbatim>\<open>StartAssertNoThreadSuspension\<close>,
  \<^verbatim>\<open>EndAssertNoThreadSuspension\<close> and \<^verbatim>\<open>ReleaseLongJumpContext\<close> are inline members of
  \<^verbatim>\<open>thread.h\<close>, which is not among the sources. The specification (3) describes the
  bookkeeping of nested no-suspension scopes as a counter plus the current reason, and
  the long-jump context as a buffer handed back to the thread after use. Opening a scope
  counts up, records the reason and returns the previous one; closing a scope counts
  down (the counter is unsigned: closing with none open is a failed check) and restores
  the reason given.
\<close>

definition StartAssertNoThreadSuspension :: "string \<Rightarrow> Thread \<Rightarrow> string option \<times> Thread" where
  "StartAssertNoThreadSuspension cause t =
     (last_no_thread_suspension_cause t,
      t\<lparr> no_thread_suspension := no_thread_suspension t + 1,
         last_no_thread_suspension_cause := Some cause \<rparr>)"

definition EndAssertNoThreadSuspension :: "string option \<Rightarrow> Thread \<Rightarrow> error + Thread" where
  "EndAssertNoThreadSuspension old_cause t =
     (if no_thread_suspension t = 0
      then Inl (Fatal [''Check failed: no_thread_suspension_ > 0''])
      else Inr (t\<lparr> no_thread_suspension := no_thread_suspension t - 1,
                  last_no_thread_suspension_cause := old_cause \<rparr>))"

definition ReleaseLongJumpContext :: "ptr \<Rightarrow> Thread \<Rightarrow> Thread" where
  "ReleaseLongJumpContext ctx t = t\<lparr> long_jump_context := ctx \<rparr>"

text \<open>
  \<^verbatim>\<open>Thread::GetLongJumpContext\<close>: the thread's context if it has one, which it gives up,
  and a new one (\<open>created\<close>, what \<^verbatim>\<open>Context::Create()\<close> returns) otherwise.
\<close>

definition GetLongJumpContext :: "ptr \<Rightarrow> Thread \<Rightarrow> ptr \<times> Thread" where
  "GetLongJumpContext created t =
     (if long_jump_context t = NULL then (created, t)
      else (long_jump_context t, t\<lparr> long_jump_context := NULL \<rparr>))"

text \<open>A frame as the catch visitor reads it.\<close>

record QuickFrame = Frame +
  GetFrameId :: nat
  GetCurrentQuickFramePc :: nat
  GetCurrentQuickFrame :: ptr

text \<open>
  What the visitor asks outside the file: of a method (\<^verbatim>\<open>IsCalleeSaveMethod\<close>,
  \<^verbatim>\<open>FindCatchBlock\<close>, \<^verbatim>\<open>ToNativePC\<close>, \<^verbatim>\<open>ToDexPC\<close>), of the tracer (\<^verbatim>\<open>IsTraceExitPc\<close>, and the
  pc \<^verbatim>\<open>TraceMethodUnwindFromCode\<close> returns when called at a frame), of the runtime
  (\<^verbatim>\<open>IsMethodTracingActive\<close>, \<^verbatim>\<open>Context::Create\<close>), of the exception (\<^verbatim>\<open>GetClass\<close>), the
  method pointer stored at a frame address, the constant \<^verbatim>\<open>DexFile::kDexNoIndex\<close>, whether
  \<^verbatim>\<open>DCHECK\<close>s are compiled in, and whether the architecture's \<^verbatim>\<open>Context::DoLongJump\<close> comes
  back to its caller (it is written not to).
\<close>

record CatchEnv = MethodModel +
  IsCalleeSaveMethod :: "ptr \<Rightarrow> bool"
  FindCatchBlock :: "ptr \<Rightarrow> ptr \<Rightarrow> nat \<Rightarrow> nat"
  ToNativePC :: "ptr \<Rightarrow> nat \<Rightarrow> nat"
  ToDexPC :: "ptr \<Rightarrow> nat \<Rightarrow> nat"
  IsTraceExitPc :: "nat \<Rightarrow> bool"
  TraceMethodUnwindFromCode :: "QuickFrame \<Rightarrow> nat"
  IsMethodTracingActive :: bool
  Context_Create :: ptr
  GetClass :: "ptr \<Rightarrow> ptr"
  method_at :: "ptr \<Rightarrow> ptr"
  kDexNoIndex :: nat
  DCHECK_is_on :: bool
  Context_DoLongJump_returns :: bool

text \<open>
  The visitor's fields. \<open>self\<close> is the thread the visitor points to, as it stands while
  the visitor lives; \<open>context_ptr\<close> is the \<^verbatim>\<open>context_\<close> of the \<^verbatim>\<open>StackVisitor\<close> base.
\<close>

record CatchBlockStackVisitor =
  context_ptr :: ptr
  self :: Thread
  exception_thrown :: ptr
  to_find :: ptr
  throw_method :: ptr
  throw_frame_id :: nat
  throw_dex_pc :: nat
  handler_quick_frame :: ptr
  handler_quick_frame_pc :: nat
  handler_dex_pc :: nat
  native_method_count :: nat
  method_tracing_active :: bool
  last_no_assert_suspension_cause :: "string option"

text \<open>The constructor, called as \<^verbatim>\<open>CatchBlockStackVisitor(self, exception)\<close>.\<close>

definition new_CatchBlockStackVisitor :: "CatchEnv \<Rightarrow> Thread \<Rightarrow> ptr \<Rightarrow> CatchBlockStackVisitor" where
  "new_CatchBlockStackVisitor env t exc =
     (let (ctx, t1) = GetLongJumpContext (Context_Create env) t;
          (previous_cause, t2) = StartAssertNoThreadSuspension ''Finding catch block'' t1
      in \<lparr> context_ptr = ctx, self = t2, exception_thrown = exc, to_find = GetClass env exc,
           throw_method = NULL, throw_frame_id = 0, throw_dex_pc = 0,
           handler_quick_frame = NULL, handler_quick_frame_pc = 0, handler_dex_pc = 0,
           native_method_count = 0,
           method_tracing_active = IsMethodTracingActive env,
           last_no_assert_suspension_cause = previous_cause \<rparr>)"

text \<open>
  The end of \<^verbatim>\<open>VisitFrame\<close>: the look-up in the method's exception table, made only
  for a dex pc other than \<^verbatim>\<open>kDexNoIndex\<close>.
\<close>

definition VisitFrame_find ::
    "CatchEnv \<Rightarrow> QuickFrame \<Rightarrow> nat \<Rightarrow> CatchBlockStackVisitor \<Rightarrow> CatchBlockStackVisitor \<times> bool" where
  "VisitFrame_find env f dex_pc v =
     (if dex_pc \<noteq> kDexNoIndex env
      then
        (let found_dex_pc = FindCatchBlock env (GetMethod f) (to_find v) dex_pc
         in if found_dex_pc \<noteq> kDexNoIndex env
            then (v\<lparr> handler_dex_pc := found_dex_pc,
                     handler_quick_frame_pc := ToNativePC env (GetMethod f) found_dex_pc,
                     handler_quick_frame := GetCurrentQuickFrame f \<rparr>, False)
            else (v, True))
      else (v, True))"

definition CatchBlockStackVisitor_VisitFrame ::
    "CatchEnv \<Rightarrow> QuickFrame \<Rightarrow> CatchBlockStackVisitor \<Rightarrow> error + (CatchBlockStackVisitor \<times> bool)" where
  "CatchBlockStackVisitor_VisitFrame env f v =
     (let m = GetMethod f in
      if m = NULL
      then Inr (v\<lparr> handler_quick_frame_pc := GetCurrentQuickFramePc f,
                  handler_quick_frame := GetCurrentQuickFrame f \<rparr>, False)
      else if IsRuntimeMethod env m
      then (if DCHECK_is_on env \<and> \<not> IsCalleeSaveMethod env m
            then Inl (Fatal [''Check failed: method->IsCalleeSaveMethod()''])
            else Inr (VisitFrame_find env f (kDexNoIndex env) v))
      else
        (let v1 = (if throw_method v = NULL
                   then v\<lparr> throw_method := m, throw_frame_id := GetFrameId f,
                           throw_dex_pc := GetDexPc f \<rparr>
                   else v)
         in if IsNative env m
            then Inr (VisitFrame_find env f (kDexNoIndex env)
                        (v1\<lparr> native_method_count := (native_method_count v1 + 1) mod 2 ^ 32 \<rparr>))
            else Inr (VisitFrame_find env f
                        (if method_tracing_active v1 \<and> IsTraceExitPc env (GetCurrentQuickFramePc f)
                         then ToDexPC env m (TraceMethodUnwindFromCode env f)
                         else GetDexPc f)
                        v1)))"

text \<open>The machine context as the jump leaves it.\<close>

record Context =
  SP :: nat
  PC :: nat
  caller_saves_smashed :: bool

text \<open>
  \<^verbatim>\<open>DoLongJump\<close> up to the jump itself: the thread and the context as they stand when
  \<^verbatim>\<open>context_->DoLongJump()\<close> is called. \<^verbatim>\<open>Dbg::PostException\<close> tells the debugger and changes
  neither; \<^verbatim>\<open>kDebugExceptionDelivery\<close> is \<^verbatim>\<open>false\<close>, so its branches are dead.
\<close>

definition DoLongJump :: "CatchEnv \<Rightarrow> CatchBlockStackVisitor \<Rightarrow> error + (Thread \<times> Context)" where
  "DoLongJump env v =
     (if handler_quick_frame v = NULL then Inl NullDereference
      else
        (let catch_method = method_at env (handler_quick_frame v);
             t1 = SetException (exception_thrown v) (self v)
         in case EndAssertNoThreadSuspension (last_no_assert_suspension_cause v) t1 of
              Inl e \<Rightarrow> Inl e
            | Inr t2 \<Rightarrow>
                let t3 = ReleaseLongJumpContext (context_ptr v) t2
                in if handler_quick_frame_pc v = 0
                   then Inl (Fatal [''Check failed: handler_quick_frame_pc_ != 0''])
                   else Inr (t3, \<lparr> SP = handler_quick_frame v, PC = handler_quick_frame_pc v,
                                   caller_saves_smashed = True \<rparr>)))"

text \<open>
  How a call of \<^verbatim>\<open>DeliverException\<close> can end: by coming back to its caller, by the
  long jump (with the thread and the context as the jump finds them), or by ending the
  process.
\<close>

datatype delivery = Returned Thread | LongJumped Thread Context | Aborted error

text \<open>
  The visitor \<^verbatim>\<open>catch_finder\<close> as \<^verbatim>\<open>DeliverException\<close> builds it, after
  \<^verbatim>\<open>ClearException()\<close>.
\<close>

definition catch_finder :: "CatchEnv \<Rightarrow> Thread \<Rightarrow> CatchBlockStackVisitor" where
  "catch_finder env t = new_CatchBlockStackVisitor env (ClearException t) (GetException t)"

text \<open>
  \<^verbatim>\<open>Thread::DeliverException\<close>. The code the search calls outside the file runs on the
  delivering thread and can read it: \<^verbatim>\<open>TraceMethodUnwindFromCode\<close> is handed
  \<^verbatim>\<open>Thread::Current()\<close>, \<^verbatim>\<open>Dbg::PostException\<close> is handed \<^verbatim>\<open>self_\<close>, and \<^verbatim>\<open>FindCatchBlock\<close>
  may cause class resolution (so the comment above \<^verbatim>\<open>ClearException()\<close>), which looks
  at the pending exception of the thread it runs on. So what that code answers is a function
  \<open>world\<close> of the thread as it stands at the call: the constructor runs on the thread
  \<^verbatim>\<open>ClearException()\<close> left, every \<^verbatim>\<open>VisitFrame\<close> and the reads of \<^verbatim>\<open>DoLongJump\<close> on the thread
  the visitor points to at that moment, and the jump primitive \<^verbatim>\<open>context_->DoLongJump()\<close>
  on the thread \<^verbatim>\<open>DoLongJump\<close> has prepared.
\<close>

definition DeliverException :: "(Thread \<Rightarrow> CatchEnv) \<Rightarrow> QuickFrame list \<Rightarrow> Thread \<Rightarrow> delivery" where
  "DeliverException world frames t =
     (let exc = GetException t in
      if exc = NULL then Aborted (Fatal [''Check failed: exception != NULL''])
      else
        (let t1 = ClearException t;
             finder = new_CatchBlockStackVisitor (world t1) t1 exc
         in case WalkStack (\<lambda>f v. CatchBlockStackVisitor_VisitFrame (world (self v)) f v)
                   frames finder of
              Inl e \<Rightarrow> Aborted e
            | Inr v \<Rightarrow>
                (case DoLongJump (world (self v)) v of
                   Inl e \<Rightarrow> Aborted e
                 | Inr (t', ctx) \<Rightarrow>
                     if Context_DoLongJump_returns (world t')
                     then Aborted (Fatal [''UNREACHABLE''])
                     else LongJumped t' ctx)))"

text \<open>
  The words of the specification about one frame of the search. A frame is the upcall
  marker when it has no method. A frame catches when its method runs bytecode (it is
  neither a runtime method nor native), the dex pc the visitor takes for it is a real
  one, and \<^verbatim>\<open>FindCatchBlock\<close> on the class of the thrown exception and that pc finds a
  handler. A frame decides the search when it is the upcall marker or catches.
\<close>

definition is_upcall :: "QuickFrame \<Rightarrow> bool" where
  "is_upcall f = (GetMethod f = NULL)"

definition current_dex_pc :: "CatchEnv \<Rightarrow> bool \<Rightarrow> QuickFrame \<Rightarrow> nat" where
  "current_dex_pc env tracing f =
     (if tracing \<and> IsTraceExitPc env (GetCurrentQuickFramePc f)
      then ToDexPC env (GetMethod f) (TraceMethodUnwindFromCode env f)
      else GetDexPc f)"

definition catches :: "CatchEnv \<Rightarrow> ptr \<Rightarrow> bool \<Rightarrow> QuickFrame \<Rightarrow> bool" where
  "catches env exception_class tracing f =
     (\<not> is_upcall f \<and> \<not> IsRuntimeMethod env (GetMethod f) \<and> \<not> IsNative env (GetMethod f) \<and>
      current_dex_pc env tracing f \<noteq> kDexNoIndex env \<and>
      FindCatchBlock env (GetMethod f) exception_class (current_dex_pc env tracing f)
        \<noteq> kDexNoIndex env)"

definition decides :: "CatchEnv \<Rightarrow> ptr \<Rightarrow> bool \<Rightarrow> QuickFrame \<Rightarrow> bool" where
  "decides env exception_class tracing f = (is_upcall f \<or> catches env exception_class tracing f)"

text \<open>
  The debug check a runtime method's frame must pass where \<^verbatim>\<open>DCHECK\<close>s are compiled in.
\<close>

definition passes_DCHECK :: "CatchEnv \<Rightarrow> QuickFrame \<Rightarrow> bool" where
  "passes_DCHECK env f =
     (if DCHECK_is_on env \<and> GetMethod f \<noteq> NULL \<and> IsRuntimeMethod env (GetMethod f)
      then IsCalleeSaveMethod env (GetMethod f) else True)"

text \<open>
  A stack for the concrete runs. Method 100 has no handler for the thrown class, method
  200 has one at dex pc 40 and method 300 one at dex pc 50; a frame of method \<open>m\<close> lies
  at address \<open>1000 + m\<close>; the upcall marker lies at 5000 and its return pc is 9000.
\<close>

definition example_catch_env :: CatchEnv where
  "example_catch_env =
     \<lparr> IsRuntimeMethod = (\<lambda>m. False), IsNative = (\<lambda>m. False), IsProxyMethod = (\<lambda>m. False),
       PrettyMethod = (\<lambda>m. ''Foo.bar''),
       IsCalleeSaveMethod = (\<lambda>m. False),
       FindCatchBlock = (\<lambda>m c pc. if m = 200 then 40 else if m = 300 then 50 else 4294967295),
       ToNativePC = (\<lambda>m pc. 16 * pc), ToDexPC = (\<lambda>m pc. pc div 16),
       IsTraceExitPc = (\<lambda>pc. False), TraceMethodUnwindFromCode = (\<lambda>f. 0),
       IsMethodTracingActive = False, Context_Create = 7000, GetClass = (\<lambda>e. 600),
       method_at = (\<lambda>a. if a = 5000 then NULL else a - 1000),
       kDexNoIndex = 4294967295, DCHECK_is_on = True, Context_DoLongJump_returns = False \<rparr>"

definition frame_of :: "ptr \<Rightarrow> QuickFrame" where
  "frame_of m = \<lparr> GetMethod = m, GetDexPc = 7, GetFrameId = 1,
                  GetCurrentQuickFramePc = 8000 + m, GetCurrentQuickFrame = 1000 + m \<rparr>"

definition upcall_frame :: QuickFrame where
  "upcall_frame = \<lparr> GetMethod = NULL, GetDexPc = 0, GetFrameId = 0,
                    GetCurrentQuickFramePc = 9000, GetCurrentQuickFrame = 5000 \<rparr>"

definition throwing_thread :: Thread where
  "throwing_thread = new_Thread\<lparr> state := kRunnable, name := ''main'', exception := 77 \<rparr>"

text \<open>
  A world for the concrete runs in which the search works only on a thread without a
  pending exception: on a thread that has one, \<^verbatim>\<open>FindCatchBlock\<close> finds no handler in any
  method.
\<close>

definition no_handler_found_env :: CatchEnv where
  "no_handler_found_env = example_catch_env\<lparr> FindCatchBlock := (\<lambda>m c pc. 4294967295) \<rparr>"

definition example_world :: "Thread \<Rightarrow> CatchEnv" where
  "example_world u = (if exception u = NULL then example_catch_env else no_handler_found_env)"

section \<open>The root visitor: \<^verbatim>\<open>ReferenceMapVisitor\<close>\<close>

text \<open>A frame as the root visitor reads it: \<^verbatim>\<open>NULL\<close> when it is not a shadow frame.\<close>

record RootFrame = QuickFrame +
  GetCurrentShadowFrame :: ptr

text \<open>
  Modelled from the spec: \<^verbatim>\<open>ShadowFrame::VisitRoots\<close> is defined in \<^verbatim>\<open>stack.h\<close>, which is
  not among the sources. The specification (4.3) says that a shadow frame holds its
  local slots itself and that they are visited directly: \<open>ShadowFrame_VisitRoots\<close> is
  the list of roots the shadow frame at an address reports, in order.

  The rest is what \<^verbatim>\<open>VisitFrame\<close> reads of a compiled method, none of it defined in the
  sources: the GC map and its length, the width in bytes of a register bitmap of the map
  (\<^verbatim>\<open>RegWidth\<close>) and the bitmap of a dex pc (\<^verbatim>\<open>FindBitMap\<close>: its bytes, \<open>None\<close> for
  \<^verbatim>\<open>NULL\<close>), the vmap table (\<^verbatim>\<open>IsInContext\<close>: \<open>Some vmap_offset\<close> for a register held
  in a callee-save register), the code item and its \<^verbatim>\<open>registers_size_\<close>, the spill masks
  and the frame size, and the two reads \<^verbatim>\<open>GetGPR\<close> (a saved register of the machine
  context) and \<^verbatim>\<open>GetVReg\<close> (a stack slot of the frame).
\<close>

record RootEnv = MethodModel +
  ShadowFrame_VisitRoots :: "ptr \<Rightarrow> ptr list"
  GetGcMap :: "ptr \<Rightarrow> ptr"
  GetGcMapLength :: "ptr \<Rightarrow> nat"
  RegWidth :: "ptr \<Rightarrow> nat"
  FindBitMap :: "ptr \<Rightarrow> nat \<Rightarrow> nat list option"
  IsInContext :: "ptr \<Rightarrow> nat \<Rightarrow> nat option"
  GetCodeItem :: "ptr \<Rightarrow> ptr"
  registers_size :: "ptr \<Rightarrow> nat"
  GetCoreSpillMask :: "ptr \<Rightarrow> nat"
  GetFpSpillMask :: "ptr \<Rightarrow> nat"
  GetFrameSizeInBytes :: "ptr \<Rightarrow> nat"
  GetGPR :: "RootFrame \<Rightarrow> nat \<Rightarrow> ptr"
  GetVReg :: "ptr \<Rightarrow> ptr \<Rightarrow> nat \<Rightarrow> nat \<Rightarrow> nat \<Rightarrow> nat \<Rightarrow> ptr"
  DCHECK_compiled_in :: bool

text \<open>
  \<^verbatim>\<open>TestBitmap\<close>: bit \<open>reg % 8\<close> of byte \<open>reg / 8\<close> of the bitmap; a byte beyond the
  bitmap is an out-of-bounds read.
\<close>

definition TestBitmap :: "nat \<Rightarrow> nat list \<Rightarrow> error + bool" where
  "TestBitmap reg reg_vector =
     (if reg div 8 < length reg_vector
      then Inr ((reg_vector ! (reg div 8)) div 2 ^ (reg mod 8) mod 2 \<noteq> 0)
      else Inl OutOfBounds)"

text \<open>\<^verbatim>\<open>__builtin_popcount\<close>: the number of bits set.\<close>

fun popcount :: "nat \<Rightarrow> nat" where
  "popcount n = (if n = 0 then 0 else n mod 2 + popcount (n div 2))"

declare popcount.simps [simp del]

text \<open>
  The \<^verbatim>\<open>while\<close> loop that looks for the saved register: it shifts the spill mask to
  the right, counting the bits set (\<open>matches\<close>) and the shifts, until \<open>matches\<close> is
  \<open>vmap_offset + 1\<close>. Once the mask is used up the loop can never leave (in a build
  without \<^verbatim>\<open>DCHECK\<close>s): not returning is the value \<open>None\<close>. The two counters count at
  most the 32 bits of the mask before that, so they do not wrap.
\<close>

partial_function (option) spill_loop ::
    "bool \<Rightarrow> nat \<Rightarrow> nat \<Rightarrow> nat \<Rightarrow> nat \<Rightarrow> (error + nat) option" where
  "spill_loop dchecks target spill_mask matches spill_shifts =
     (if matches \<noteq> target
      then (if dchecks \<and> spill_mask = 0
            then Some (Inl (Fatal [''Check failed: spill_mask != 0'']))
            else spill_loop dchecks target (spill_mask div 2) (matches + spill_mask mod 2)
                   (spill_shifts + 1))
      else Some (Inr spill_shifts))"

text \<open>
  The register to load from the context: the \<^verbatim>\<open>CHECK_LT\<close>, the loop, and the
  \<^verbatim>\<open>spill_shifts--\<close> after it (the loop has made at least one shift).
\<close>

definition context_register :: "bool \<Rightarrow> nat \<Rightarrow> nat \<Rightarrow> (error + nat) option" where
  "context_register dchecks core_spills vmap_offset =
     (if \<not> vmap_offset < popcount core_spills
      then Some (Inl (Fatal [''Check failed: vmap_offset < __builtin_popcount(spill_mask)'']))
      else
        (case spill_loop dchecks (vmap_offset + 1) core_spills 0 0 of
           None \<Rightarrow> None
         | Some (Inl e) \<Rightarrow> Some (Inl e)
         | Some (Inr spill_shifts) \<Rightarrow> Some (Inr (spill_shifts - 1))))"

text \<open>
  The visitor's state is the list of the roots reported to the callback so far, in the
  order of the calls. \<open>report\<close> is the end of the loop body: the callback is called for
  a reference that is not \<^verbatim>\<open>NULL\<close>.
\<close>

definition report :: "ptr \<Rightarrow> ptr list \<Rightarrow> ptr list" where
  "report ref roots = (if ref \<noteq> NULL then roots @ [ref] else roots)"

text \<open>The body of the \<^verbatim>\<open>for\<close> loop, for one dex register.\<close>

definition VisitFrame_register ::
    "RootEnv \<Rightarrow> RootFrame \<Rightarrow> nat list \<Rightarrow> nat \<Rightarrow> ptr list \<Rightarrow> (error + ptr list) option" where
  "VisitFrame_register env f reg_bitmap reg roots =
     (let m = GetMethod f in
      case TestBitmap reg reg_bitmap of
        Inl e \<Rightarrow> Some (Inl e)
      | Inr False \<Rightarrow> Some (Inr roots)
      | Inr True \<Rightarrow>
          (case IsInContext env m reg of
             Some vmap_offset \<Rightarrow>
               (case context_register (DCHECK_compiled_in env) (GetCoreSpillMask env m)
                       vmap_offset of
                  None \<Rightarrow> None
                | Some (Inl e) \<Rightarrow> Some (Inl e)
                | Some (Inr spill_shifts) \<Rightarrow> Some (Inr (report (GetGPR env f spill_shifts) roots)))
           | None \<Rightarrow>
               Some (Inr (report
                 (GetVReg env (GetCurrentQuickFrame f) (GetCodeItem env m)
                    (GetCoreSpillMask env m) (GetFpSpillMask env m)
                    (GetFrameSizeInBytes env m) reg)
                 roots))))"

text \<open>The \<^verbatim>\<open>for\<close> loop over the dex registers, in ascending order.\<close>

fun VisitFrame_registers ::
    "RootEnv \<Rightarrow> RootFrame \<Rightarrow> nat list \<Rightarrow> nat list \<Rightarrow> ptr list \<Rightarrow> (error + ptr list) option" where
  "VisitFrame_registers env f reg_bitmap [] roots = Some (Inr roots)"
| "VisitFrame_registers env f reg_bitmap (reg # regs) roots =
     (case VisitFrame_register env f reg_bitmap reg roots of
        None \<Rightarrow> None
      | Some (Inl e) \<Rightarrow> Some (Inl e)
      | Some (Inr roots') \<Rightarrow> VisitFrame_registers env f reg_bitmap regs roots')"

definition ReferenceMapVisitor_VisitFrame ::
    "RootEnv \<Rightarrow> RootFrame \<Rightarrow> ptr list \<Rightarrow> (error + (ptr list \<times> bool)) option" where
  "ReferenceMapVisitor_VisitFrame env f roots =
     (if GetCurrentShadowFrame f \<noteq> NULL
      then Some (Inr (roots @ ShadowFrame_VisitRoots env (GetCurrentShadowFrame f), True))
      else
        (let m = GetMethod f in
         if m = NULL then Some (Inl NullDereference)
         else if \<not> IsNative env m \<and> \<not> IsRuntimeMethod env m \<and> \<not> IsProxyMethod env m
         then
           (if GetGcMap env m = NULL then Some (Inl (Fatal [''Check failed: gc_map != NULL'']))
            else if GetGcMapLength env m = 0
            then Some (Inl (Fatal [''Check failed: 0U != gc_map_length'']))
            else
              (case FindBitMap env m (GetDexPc f) of
                 None \<Rightarrow> Some (Inl (Fatal [''Check failed: reg_bitmap != NULL'']))
               | Some reg_bitmap \<Rightarrow>
                   if GetCodeItem env m = NULL
                   then (if DCHECK_compiled_in env
                         then Some (Inl (Fatal [''Check failed: code_item != NULL'']))
                         else Some (Inl NullDereference))
                   else if DCHECK_compiled_in env \<and> GetCurrentQuickFrame f = NULL
                   then Some (Inl (Fatal [''Check failed: cur_quick_frame != NULL'']))
                   else
                     (let num_regs = min (RegWidth env m * 8)
                                         (registers_size env (GetCodeItem env m))
                      in case VisitFrame_registers env f reg_bitmap [0..<num_regs] roots of
                           None \<Rightarrow> None
                         | Some (Inl e) \<Rightarrow> Some (Inl e)
                         | Some (Inr roots') \<Rightarrow> Some (Inr (roots', True)))))
         else Some (Inr (roots, True))))"

text \<open>
  The words of the claim about one compiled frame. A dex register is live at the frame
  when it is below both the bitmap's width and the method's register count and its bit
  is set in the bitmap of the frame's dex pc. The callee-save register that holds the
  register of vmap offset \<open>k\<close> is the position of the \<open>k\<close>-th set bit (from 0, lowest
  first) of the core spill mask. The reference of a dex register is read from that saved
  register of the context when the vmap table has the register in context, and from the
  frame's stack slot otherwise.
\<close>

definition bitmap_marks :: "nat list \<Rightarrow> nat \<Rightarrow> bool" where
  "bitmap_marks reg_bitmap reg =
     (reg div 8 < length reg_bitmap \<and> odd ((reg_bitmap ! (reg div 8)) div 2 ^ (reg mod 8)))"

definition spilled_register :: "nat \<Rightarrow> nat \<Rightarrow> nat" where
  "spilled_register core_spills k = filter (\<lambda>j. odd (core_spills div 2 ^ j)) [0..<32] ! k"

definition reference_of :: "RootEnv \<Rightarrow> RootFrame \<Rightarrow> nat \<Rightarrow> ptr" where
  "reference_of env f reg =
     (case IsInContext env (GetMethod f) reg of
        Some vmap_offset \<Rightarrow>
          GetGPR env f (spilled_register (GetCoreSpillMask env (GetMethod f)) vmap_offset)
      | None \<Rightarrow>
          GetVReg env (GetCurrentQuickFrame f) (GetCodeItem env (GetMethod f))
            (GetCoreSpillMask env (GetMethod f)) (GetFpSpillMask env (GetMethod f))
            (GetFrameSizeInBytes env (GetMethod f)) reg)"

definition live_references :: "RootEnv \<Rightarrow> RootFrame \<Rightarrow> nat list \<Rightarrow> ptr list" where
  "live_references env f reg_bitmap =
     filter (\<lambda>ref. ref \<noteq> NULL)
       (map (reference_of env f)
          (filter (bitmap_marks reg_bitmap)
             [0..<min (RegWidth env (GetMethod f) * 8)
                      (registers_size env (GetCodeItem env (GetMethod f)))]))"

text \<open>
  The well-formedness of a compiled frame that the \<^verbatim>\<open>CHECK\<close>s of \<^verbatim>\<open>VisitFrame\<close> ask for:
  a method with a GC map, a bitmap for the dex pc that is as wide as the map says, a code
  item, a frame address, a 32-bit core spill mask, and for every register the vmap table
  has in context a vmap offset below the number of spilled core registers.
\<close>

definition compiled_frame_ok :: "RootEnv \<Rightarrow> RootFrame \<Rightarrow> nat list \<Rightarrow> bool" where
  "compiled_frame_ok env f reg_bitmap =
     (let m = GetMethod f in
      GetCurrentShadowFrame f = NULL \<and> m \<noteq> NULL \<and>
      \<not> IsNative env m \<and> \<not> IsRuntimeMethod env m \<and> \<not> IsProxyMethod env m \<and>
      GetGcMap env m \<noteq> NULL \<and> GetGcMapLength env m \<noteq> 0 \<and>
      FindBitMap env m (GetDexPc f) = Some reg_bitmap \<and>
      RegWidth env m \<le> length reg_bitmap \<and>
      GetCodeItem env m \<noteq> NULL \<and> GetCurrentQuickFrame f \<noteq> NULL \<and>
      GetCoreSpillMask env m < 2 ^ 32 \<and>
      list_all (\<lambda>reg. case IsInContext env m reg of
                         Some vmap_offset \<Rightarrow> vmap_offset < popcount (GetCoreSpillMask env m)
                       | None \<Rightarrow> True)
        [0..<min (RegWidth env m * 8) (registers_size env (GetCodeItem env m))])"

text \<open>
  A compiled frame for the concrete runs: method 100 has five dex registers; the bitmap
  of dex pc 7 is the byte 13, which marks the registers 0, 2 and 3; register 2 is held in
  the callee-save register of vmap offset 1, which with the core spill mask 176 (bits 4,
  5 and 7) is machine register 5 and holds object 4242; the stack slot of register 0 holds
  object 1111, that of register 3 is \<^verbatim>\<open>NULL\<close>, and the slots of the dead registers 1
  and 4 hold the stale address 9999.
\<close>

definition example_root_env :: RootEnv where
  "example_root_env =
     \<lparr> IsRuntimeMethod = (\<lambda>m. False), IsNative = (\<lambda>m. False), IsProxyMethod = (\<lambda>m. False),
       PrettyMethod = (\<lambda>m. ''Foo.bar''),
       ShadowFrame_VisitRoots = (\<lambda>sf. [2222, 3333]),
       GetGcMap = (\<lambda>m. 500), GetGcMapLength = (\<lambda>m. 12), RegWidth = (\<lambda>m. 1),
       FindBitMap = (\<lambda>m pc. if pc = 7 then Some [13] else None),
       IsInContext = (\<lambda>m reg. if reg = 2 then Some 1 else None),
       GetCodeItem = (\<lambda>m. 600), registers_size = (\<lambda>c. 5),
       GetCoreSpillMask = (\<lambda>m. 176), GetFpSpillMask = (\<lambda>m. 0),
       GetFrameSizeInBytes = (\<lambda>m. 64),
       GetGPR = (\<lambda>f r. if r = 5 then 4242 else 0),
       GetVReg = (\<lambda>frame code_item core fp size reg.
                    if reg = 0 then 1111 else if reg = 3 then 0 else 9999),
       DCHECK_compiled_in = True \<rparr>"

definition example_root_frame :: RootFrame where
  "example_root_frame =
     \<lparr> GetMethod = 100, GetDexPc = 7, GetFrameId = 1, GetCurrentQuickFramePc = 8100,
       GetCurrentQuickFrame = 1100, GetCurrentShadowFrame = NULL \<rparr>"

section \<open>Suspending for the debugger: \<^verbatim>\<open>Thread::SuspendForDebugger\<close>\<close>

text \<open>
  What the loop meets outside the function at its \<open>n\<close>-th poll (from 0): whether
  \<^verbatim>\<open>FromManagedThread\<close> finds a thread for the peer, what the target's \<^verbatim>\<open>IsSuspended()\<close>
  answers (the target changes its own state while the caller sleeps, and \<^verbatim>\<open>IsSuspended\<close>
  is declared outside the sources), and the name of a mutex the calling thread still
  holds before it sleeps (\<open>None\<close> when it holds none); and whether the target is the
  calling thread. The lock scopes always get their locks and are not modelled; the lines
  logged by \<^verbatim>\<open>LOG(WARNING)\<close> and \<^verbatim>\<open>LOG(ERROR)\<close> are left out.
\<close>

record PollEnv = SuspendEnv +
  thread_registered :: "nat \<Rightarrow> bool"
  IsSuspended_answer :: "nat \<Rightarrow> bool"
  held_mutex_name :: "nat \<Rightarrow> string option"
  target_is_current_thread :: bool

text \<open>The waits between polls: \<^verbatim>\<open>sched_yield()\<close> and \<^verbatim>\<open>usleep(delay_us)\<close>.\<close>

datatype wait = Yield | Sleep nat

text \<open>
  What a call leaves: the thread it returns (\<open>None\<close> for \<^verbatim>\<open>NULL\<close>), the \<^verbatim>\<open>*timeout\<close>
  flag, the target thread as the call leaves it, and the waits it made, in order.
\<close>

record SuspendOutcome =
  returned :: "Thread option"
  timeout :: bool
  target :: Thread
  waited :: "wait list"

definition kTimeoutUs :: nat where
  "kTimeoutUs = 30 * 1000000"

text \<open>
  \<^verbatim>\<open>ModifySuspendCount\<close> as the loop calls it, inside the scope that holds
  \<^verbatim>\<open>thread_suspend_count_lock_\<close>.
\<close>

definition ModifySuspendCount_locked :: "PollEnv \<Rightarrow> int \<Rightarrow> bool \<Rightarrow> Thread \<Rightarrow> error + Thread" where
  "ModifySuspendCount_locked env delta for_debugger t =
     ModifySuspendCount
       \<lparr> kIsDebugBuild = kIsDebugBuild env, suspend_count_lock_held = True,
         mutator_lock_shared_held_after_try = mutator_lock_shared_held_after_try env,
         thread_list_lock_held_after_try = thread_list_lock_held_after_try env,
         self_printed = self_printed env, thread_list_dump = thread_list_dump env \<rparr>
       delta for_debugger t"

text \<open>
  The \<^verbatim>\<open>while (true)\<close> loop, one call for each iteration, with the local variables as
  arguments. \<^verbatim>\<open>useconds_t\<close> is an unsigned 32-bit integer: the doubling and the sum wrap
  around. A loop that never returns is \<open>None\<close>.
\<close>

partial_function (option) SuspendForDebugger_loop ::
    "PollEnv \<Rightarrow> nat \<Rightarrow> nat \<Rightarrow> nat \<Rightarrow> bool \<Rightarrow> bool \<Rightarrow> Thread \<Rightarrow> wait list \<Rightarrow>
     (error + SuspendOutcome) option" where
  "SuspendForDebugger_loop env n total_delay_us delay_us request_suspension
       did_suspend_request thread_found waits =
     (if \<not> thread_registered env n
      then Some (Inr \<lparr> returned = None, timeout = False, target = thread_found, waited = waits \<rparr>)
      else
        (case (if request_suspension then ModifySuspendCount_locked env 1 True thread_found
               else Inr thread_found) of
           Inl e \<Rightarrow> Some (Inl e)
         | Inr t1 \<Rightarrow>
             if target_is_current_thread env
             then Some (Inl (Fatal [''Check failed: thread != soa.Self() Attempt to suspend for debugger the current thread'']))
             else if IsSuspended_answer env n
             then Some (Inr \<lparr> returned = Some t1, timeout = False, target = t1, waited = waits \<rparr>)
             else if total_delay_us \<ge> kTimeoutUs
             then
               (case (if did_suspend_request \<or> request_suspension
                      then ModifySuspendCount_locked env (-1) True t1 else Inr t1) of
                  Inl e \<Rightarrow> Some (Inl e)
                | Inr t2 \<Rightarrow>
                    Some (Inr \<lparr> returned = None, timeout = True, target = t2, waited = waits \<rparr>))
             else
               (case held_mutex_name env n of
                  Some held \<Rightarrow>
                    Some (Inl (Fatal [''Holding '' @ held @ '' while sleeping for thread suspension'']))
                | None \<Rightarrow>
                    if \<not> (delay_us * 2) mod 2 ^ 32 \<ge> delay_us
                    then Some (Inl (Fatal [''Check failed: new_delay_us >= delay_us'']))
                    else if (if (delay_us * 2) mod 2 ^ 32 < 500000
                             then (delay_us * 2) mod 2 ^ 32 else delay_us) = 0
                    then SuspendForDebugger_loop env (n + 1) total_delay_us 500 False
                           (did_suspend_request \<or> request_suspension) t1 (waits @ [Yield])
                    else SuspendForDebugger_loop env (n + 1)
                           ((total_delay_us +
                             (if (delay_us * 2) mod 2 ^ 32 < 500000
                              then (delay_us * 2) mod 2 ^ 32 else delay_us)) mod 2 ^ 32)
                           (if (delay_us * 2) mod 2 ^ 32 < 500000
                            then (delay_us * 2) mod 2 ^ 32 else delay_us)
                           False (did_suspend_request \<or> request_suspension) t1
                           (waits @ [Sleep (if (delay_us * 2) mod 2 ^ 32 < 500000
                                            then (delay_us * 2) mod 2 ^ 32 else delay_us)]))))"

text \<open>
  \<^verbatim>\<open>SuspendForDebugger(peer, request_suspension, timeout)\<close> on the thread of the peer:
  the locals as initialised before the loop.
\<close>

definition SuspendForDebugger :: "PollEnv \<Rightarrow> bool \<Rightarrow> Thread \<Rightarrow> (error + SuspendOutcome) option" where
  "SuspendForDebugger env request_suspension peer_thread =
     SuspendForDebugger_loop env 0 0 0 request_suspension False peer_thread []"

text \<open>
  A target that never reports itself suspended, with a caller that is another thread and
  holds no mutex when it sleeps.
\<close>

definition stuck_target_env :: "PollEnv \<Rightarrow> bool" where
  "stuck_target_env env =
     ((\<forall>n. thread_registered env n) \<and> (\<forall>n. \<not> IsSuspended_answer env n) \<and>
      (\<forall>n. held_mutex_name env n = None) \<and> \<not> target_is_current_thread env)"

definition example_poll_env :: PollEnv where
  "example_poll_env =
     \<lparr> kIsDebugBuild = True, suspend_count_lock_held = False,
       mutator_lock_shared_held_after_try = True, thread_list_lock_held_after_try = True,
       self_printed = ''0x1000'', thread_list_dump = ''DALVIK THREADS:'',
       thread_registered = (\<lambda>n. True), IsSuspended_answer = (\<lambda>n. False),
       held_mutex_name = (\<lambda>n. None), target_is_current_thread = False \<rparr>"

definition busy_thread :: Thread where
  "busy_thread = new_Thread\<lparr> state := kRunnable, name := ''Worker'', suspend_count := 1 \<rparr>"

text \<open>The end of a timed-out call: the decrement that undoes the request, if one was made.\<close>

definition rolled_back :: "PollEnv \<Rightarrow> bool \<Rightarrow> Thread \<Rightarrow> error + Thread" where
  "rolled_back env did t = (if did then ModifySuspendCount_locked env (-1) True t else Inr t)"

text \<open>The time slept in a list of waits, in microseconds.\<close>

fun slept :: "wait list \<Rightarrow> nat" where
  "slept [] = 0"
| "slept (Yield # ws) = slept ws"
| "slept (Sleep d # ws) = d + slept ws"

section \<open>Becoming runnable: \<^verbatim>\<open>Thread::TransitionFromSuspendedToRunnable\<close>\<close>

text \<open>
  The function runs on its own thread while other threads run too, so it is modelled as
  a transition system: the calling thread moves from one program point to the next, and
  between any two of its steps the other threads may take steps of theirs.

  The program points of the function, in the order of the source:
  \<^item> \<open>Entry\<close>: \<^verbatim>\<open>old_state = GetStateUnsafe()\<close>;
  \<^item> \<open>RacyCheck\<close>: the top of the \<^verbatim>\<open>do\<close> loop, \<^verbatim>\<open>if (GetSuspendCountUnsafe() > 0)\<close>;
  \<^item> \<open>Lock1\<close>: \<^verbatim>\<open>MutexLock mu(*Locks::thread_suspend_count_lock_)\<close> of the wait branch;
  \<^item> \<open>AssertNotHeld\<close>: \<^verbatim>\<open>Locks::mutator_lock_->AssertNotHeld()\<close>;
  \<^item> \<open>WaitCheck\<close>: \<^verbatim>\<open>while (GetSuspendCount() != 0)\<close>;
  \<^item> \<open>Waiting\<close>: inside \<^verbatim>\<open>resume_cond_->Wait(...)\<close>, the lock given up, until woken;
  \<^item> \<open>Reacquire\<close>: woken, \<^verbatim>\<open>Wait\<close> takes the lock again before it returns;
  \<^item> \<open>Unlock1\<close>: the end of the wait branch, where \<open>mu\<close> is released;
  \<^item> \<open>SharedLock\<close>: \<^verbatim>\<open>Locks::mutator_lock_->SharedLock()\<close>;
  \<^item> \<open>Lock2\<close>: the second \<^verbatim>\<open>MutexLock mu(*Locks::thread_suspend_count_lock_)\<close>;
  \<^item> \<open>Check\<close>: \<^verbatim>\<open>if (GetSuspendCount() == 0)\<close>;
  \<^item> \<open>SetRunnable\<close>: \<^verbatim>\<open>SetState(kRunnable); done = true;\<close>
  \<^item> \<open>SharedUnlock\<close>: \<^verbatim>\<open>Locks::mutator_lock_->SharedUnlock()\<close> of the \<^verbatim>\<open>else\<close> branch;
  \<^item> \<open>Unlock2\<close>: the end of the loop body, where the second \<open>mu\<close> is released, and the
    test \<^verbatim>\<open>while (!done)\<close>;
  \<^item> \<open>Return\<close>: \<^verbatim>\<open>return old_state\<close>.
\<close>

datatype location =
  Entry | RacyCheck | Lock1 | AssertNotHeld | WaitCheck | Waiting | Reacquire | Unlock1 |
  SharedLock | Lock2 | Check | SetRunnable | SharedUnlock | Unlock2 | Return

datatype lock_holder = This_thread | Another_thread

text \<open>
  The state of the system: where the calling thread stands, the thread entity itself,
  who holds \<^verbatim>\<open>thread_suspend_count_lock_\<close>, whether the calling thread holds a share of
  \<^verbatim>\<open>mutator_lock_\<close>, whether another thread (the collector) holds \<^verbatim>\<open>mutator_lock_\<close>
  exclusively, and the locals \<^verbatim>\<open>old_state\<close> and \<^verbatim>\<open>done\<close>.
\<close>

record Transition =
  pc :: location
  this_thread :: Thread
  suspend_count_lock :: "lock_holder option"
  mutator_lock_shared :: bool
  mutator_lock_exclusive :: bool
  old_state :: ThreadState
  loop_done :: bool

text \<open>
  One step of the calling thread; \<open>None\<close> when it cannot move (a lock it needs is
  taken, it waits on the condition variable, or it has returned). A mutex is taken only
  when free; \<^verbatim>\<open>Wait\<close> gives the mutex up and blocks; a share of the mutator lock is
  granted only while no thread holds it exclusively. The two debug assertions
  (\<^verbatim>\<open>DCHECK_NE(old_state, kRunnable)\<close>, \<^verbatim>\<open>AssertNotHeld\<close>) change nothing and are steps that
  only move on.
\<close>

definition this_thread_step :: "Transition \<Rightarrow> Transition option" where
  "this_thread_step s =
     (case pc s of
        Entry \<Rightarrow> Some (s\<lparr> old_state := state (this_thread s), pc := RacyCheck \<rparr>)
      | RacyCheck \<Rightarrow>
          Some (s\<lparr> pc := (if suspend_count (this_thread s) > 0 then Lock1 else SharedLock) \<rparr>)
      | Lock1 \<Rightarrow>
          (if suspend_count_lock s = None
           then Some (s\<lparr> suspend_count_lock := Some This_thread, pc := AssertNotHeld \<rparr>)
           else None)
      | AssertNotHeld \<Rightarrow> Some (s\<lparr> pc := WaitCheck \<rparr>)
      | WaitCheck \<Rightarrow>
          (if suspend_count (this_thread s) \<noteq> 0
           then Some (s\<lparr> suspend_count_lock := None, pc := Waiting \<rparr>)
           else Some (s\<lparr> pc := Unlock1 \<rparr>))
      | Waiting \<Rightarrow> None
      | Reacquire \<Rightarrow>
          (if suspend_count_lock s = None
           then Some (s\<lparr> suspend_count_lock := Some This_thread, pc := WaitCheck \<rparr>)
           else None)
      | Unlock1 \<Rightarrow> Some (s\<lparr> suspend_count_lock := None, pc := SharedLock \<rparr>)
      | SharedLock \<Rightarrow>
          (if \<not> mutator_lock_exclusive s
           then Some (s\<lparr> mutator_lock_shared := True, pc := Lock2 \<rparr>)
           else None)
      | Lock2 \<Rightarrow>
          (if suspend_count_lock s = None
           then Some (s\<lparr> suspend_count_lock := Some This_thread, pc := Check \<rparr>)
           else None)
      | Check \<Rightarrow>
          Some (s\<lparr> pc := (if suspend_count (this_thread s) = 0 then SetRunnable
                            else SharedUnlock) \<rparr>)
      | SetRunnable \<Rightarrow>
          Some (s\<lparr> this_thread := (this_thread s)\<lparr> state := kRunnable \<rparr>,
                   loop_done := True, pc := Unlock2 \<rparr>)
      | SharedUnlock \<Rightarrow> Some (s\<lparr> mutator_lock_shared := False, pc := Unlock2 \<rparr>)
      | Unlock2 \<Rightarrow>
          Some (s\<lparr> suspend_count_lock := None,
                   pc := (if loop_done s then Return else RacyCheck) \<rparr>)
      | Return \<Rightarrow> None)"

text \<open>
  What can happen in the system. The other threads take and release
  \<^verbatim>\<open>thread_suspend_count_lock_\<close>, call \<^verbatim>\<open>ModifySuspendCount\<close> on this thread while they hold
  it (the only writer of \<^verbatim>\<open>suspend_count_\<close> in the file, which asserts the lock), take
  \<^verbatim>\<open>mutator_lock_\<close> exclusively while no share is out, and wake the thread from its wait
  (a notification of \<^verbatim>\<open>resume_cond_\<close>, or a wake-up for no reason). Only the thread
  itself writes its \<^verbatim>\<open>state_\<close>.
\<close>

datatype action =
  This_thread_steps
| Woken
| Other_locks
| Other_ModifySuspendCount int bool
| Other_unlocks
| Collector_locks
| Collector_unlocks

definition step :: "SuspendEnv \<Rightarrow> action \<Rightarrow> Transition \<Rightarrow> Transition option" where
  "step env a s =
     (case a of
        This_thread_steps \<Rightarrow> this_thread_step s
      | Woken \<Rightarrow> (if pc s = Waiting then Some (s\<lparr> pc := Reacquire \<rparr>) else None)
      | Other_locks \<Rightarrow>
          (if suspend_count_lock s = None
           then Some (s\<lparr> suspend_count_lock := Some Another_thread \<rparr>) else None)
      | Other_ModifySuspendCount delta for_debugger \<Rightarrow>
          (if suspend_count_lock s = Some Another_thread
           then (case ModifySuspendCount (env\<lparr> suspend_count_lock_held := True \<rparr>)
                        delta for_debugger (this_thread s) of
                   Inl e \<Rightarrow> None
                 | Inr t \<Rightarrow> Some (s\<lparr> this_thread := t \<rparr>))
           else None)
      | Other_unlocks \<Rightarrow>
          (if suspend_count_lock s = Some Another_thread
           then Some (s\<lparr> suspend_count_lock := None \<rparr>) else None)
      | Collector_locks \<Rightarrow>
          (if \<not> mutator_lock_shared s \<and> \<not> mutator_lock_exclusive s
           then Some (s\<lparr> mutator_lock_exclusive := True \<rparr>) else None)
      | Collector_unlocks \<Rightarrow>
          (if mutator_lock_exclusive s
           then Some (s\<lparr> mutator_lock_exclusive := False \<rparr>) else None))"

text \<open>An execution: the actions of a schedule taken one after the other.\<close>

fun execute :: "SuspendEnv \<Rightarrow> action list \<Rightarrow> Transition \<Rightarrow> Transition option" where
  "execute env [] s = Some s"
| "execute env (a # as) s =
     (case step env a s of None \<Rightarrow> None | Some s' \<Rightarrow> execute env as s')"

text \<open>
  The call starts at \<open>Entry\<close> on a thread that is not runnable and so holds no share of
  the mutator lock (it gave it up in \<^verbatim>\<open>TransitionFromRunnableToSuspended\<close>) and does not
  hold the suspend-count lock.
\<close>

definition call_starts :: "Transition \<Rightarrow> bool" where
  "call_starts s =
     (pc s = Entry \<and> state (this_thread s) \<noteq> kRunnable \<and> \<not> mutator_lock_shared s \<and>
      suspend_count_lock s \<noteq> Some This_thread \<and> \<not> loop_done s)"

text \<open>The program points at which the calling thread holds the suspend-count lock.\<close>

definition holds_lock_at :: "location \<Rightarrow> bool" where
  "holds_lock_at l =
     (l = AssertNotHeld \<or> l = WaitCheck \<or> l = Unlock1 \<or> l = Check \<or> l = SetRunnable \<or>
      l = SharedUnlock \<or> l = Unlock2)"

text \<open>The program points of the wait branch and before, up to \<^verbatim>\<open>SharedLock()\<close>.\<close>

definition before_SharedLock :: "location \<Rightarrow> bool" where
  "before_SharedLock l =
     (l = Entry \<or> l = RacyCheck \<or> l = Lock1 \<or> l = AssertNotHeld \<or> l = WaitCheck \<or>
      l = Waiting \<or> l = Reacquire \<or> l = Unlock1 \<or> l = SharedLock)"

text \<open>What holds of every state an execution reaches.\<close>

definition transition_invariant :: "Transition \<Rightarrow> bool" where
  "transition_invariant s =
     ((suspend_count_lock s = Some This_thread) = holds_lock_at (pc s) \<and>
      (pc s = SetRunnable \<longrightarrow> suspend_count (this_thread s) = 0) \<and>
      mutator_lock_shared s =
        (\<not> before_SharedLock (pc s) \<and> (pc s = Unlock2 \<longrightarrow> loop_done s)) \<and>
      loop_done s = (state (this_thread s) = kRunnable) \<and>
      (loop_done s \<longrightarrow> pc s = Unlock2 \<or> pc s = Return) \<and>
      (pc s = Return \<longrightarrow> loop_done s))"

text \<open>
  A thread suspended by one request, and a schedule: the thread waits, another thread
  resumes it and wakes it, and it becomes runnable and returns.
\<close>

definition suspended_call :: Transition where
  "suspended_call =
     \<lparr> pc = Entry,
       this_thread = new_Thread\<lparr> state := kSuspended, name := ''main'', suspend_count := 1 \<rparr>,
       suspend_count_lock = None, mutator_lock_shared = False,
       mutator_lock_exclusive = False, old_state = kSuspended, loop_done = False \<rparr>"

definition resume_schedule :: "action list" where
  "resume_schedule =
     [This_thread_steps, This_thread_steps, This_thread_steps, This_thread_steps,
      This_thread_steps, Other_locks, Other_ModifySuspendCount (-1) False, Other_unlocks,
      Woken, This_thread_steps, This_thread_steps, This_thread_steps, This_thread_steps,
      This_thread_steps, This_thread_steps]"

section \<open>Properties of the suspend accounting\<close>

lemma ModifySuspendCount_preserves_invariant:
  assumes "suspend_invariant t" and "paired_contract t (delta, fd)"
    and "ModifySuspendCount env delta fd t = Inr t'"
  shows "suspend_invariant t'"
  using assms
  by (auto simp: ModifySuspendCount_def suspend_invariant_def paired_contract_def
      split: if_splits)

lemma calls_respect_take:
  "calls_respect P env t cs \<Longrightarrow> calls_respect P env t (take n cs)"
proof (induction cs arbitrary: t n)
  case Nil
  then show ?case by simp
next
  case (Cons c cs)
  show ?case
  proof (cases n)
    case 0
    then show ?thesis by simp
  next
    case (Suc m)
    with Cons show ?thesis by (auto split: sum.splits)
  qed
qed

lemma calls_preserve_invariant:
  "suspend_invariant t \<Longrightarrow> calls_respect paired_contract env t cs \<Longrightarrow>
   ModifySuspendCount_calls env t cs = Inr t' \<Longrightarrow> suspend_invariant t'"
proof (induction cs arbitrary: t)
  case Nil
  then show ?case by simp
next
  case (Cons c cs)
  from Cons.prems(3) obtain t1 where
    step: "ModifySuspendCount env (fst c) (snd c) t = Inr t1"
    and rest: "ModifySuspendCount_calls env t1 cs = Inr t'"
    by (auto split: sum.splits)
  from Cons.prems(2) step have pc: "paired_contract t (fst c, snd c)"
    and r: "calls_respect paired_contract env t1 cs"
    by auto
  from ModifySuspendCount_preserves_invariant[OF Cons.prems(1) pc step]
  have "suspend_invariant t1" .
  from Cons.IH[OF this r rest] show ?case .
qed

text \<open>
  C1, as the specification words it, fails. The calls \<open>(+1, false)\<close> and then
  \<open>(-1, true)\<close> on a new thread are both within the stated contract (each delta is
  \<open>+1\<close> or \<open>-1\<close>, the lock is held, every debug assertion passes), and they leave
  \<open>suspend_count = 0\<close> and \<open>debug_suspend_count = -1\<close>: the function subtracts from the
  debugger's counter whenever \<open>for_debugger\<close> is set and checks nothing about it.
\<close>

theorem ModifySuspendCount_invariant_counterexample:
  "suspend_invariant new_Thread \<and> suspend_count_lock_held example_env \<and>
   calls_respect api_contract example_env new_Thread [(1, False), (-1, True)] \<and>
   ModifySuspendCount_calls example_env new_Thread [(1, False), (-1, True)]
     = Inr (new_Thread\<lparr> suspend_count := 0, debug_suspend_count := -1 \<rparr>) \<and>
   \<not> suspend_invariant (new_Thread\<lparr> suspend_count := 0, debug_suspend_count := -1 \<rparr>)"
  by (simp add: suspend_invariant_def new_Thread_def example_env_def api_contract_def
      ModifySuspendCount_def in_int_range_def)

text \<open>
  C1, amended: for every sequence of \<open>ModifySuspendCount\<close> calls in which each
  decrement undoes an increment of its own kind (\<open>paired_contract\<close>: \<open>+1\<close> is free; \<open>-1\<close>
  for the debugger needs \<open>debug_suspend_count > 0\<close>, \<open>-1\<close> not for the debugger needs
  \<open>suspend_count > debug_suspend_count\<close>, unless the counter is already \<open>\<le> 0\<close>; the
  force-clearing delta \<open>-debug_suspend_count\<close> comes with \<open>for_debugger\<close>), started on a
  thread where \<open>suspend_count >= debug_suspend_count >= 0\<close>, the invariant holds after
  every call that returns (after each prefix \<open>take n cs\<close> of the sequence).
\<close>

theorem ModifySuspendCount_invariant_paired:
  assumes "suspend_invariant t" and "calls_respect paired_contract env t cs"
  shows "case ModifySuspendCount_calls env t (take n cs) of
           Inl e \<Rightarrow> True | Inr t' \<Rightarrow> suspend_invariant t'"
  using calls_preserve_invariant[OF assms(1) calls_respect_take[OF assms(2)]]
  by (auto split: sum.splits)

theorem ModifySuspendCount_invariant_paired_witness:
  "suspend_invariant new_Thread \<and>
   calls_respect paired_contract example_env new_Thread
     [(1, True), (1, False), (-1, True), (1, True), (-1, True), (-1, False)] \<and>
   ModifySuspendCount_calls example_env new_Thread
     (take 4 [(1, True), (1, False), (-1, True), (1, True), (-1, True), (-1, False)])
     = Inr (new_Thread\<lparr> suspend_count := 2, debug_suspend_count := 1 \<rparr>) \<and>
   suspend_invariant (new_Thread\<lparr> suspend_count := 2, debug_suspend_count := 1 \<rparr>)"
proof -
  have inv: "suspend_invariant new_Thread"
    by (simp add: suspend_invariant_def new_Thread_def)
  have ok: "calls_respect paired_contract example_env new_Thread
     [(1, True), (1, False), (-1, True), (1, True), (-1, True), (-1, False)]"
    by (simp add: paired_contract_def new_Thread_def example_env_def
        ModifySuspendCount_def in_int_range_def)
  have run: "ModifySuspendCount_calls example_env new_Thread
     (take 4 [(1, True), (1, False), (-1, True), (1, True), (-1, True), (-1, False)])
     = Inr (new_Thread\<lparr> suspend_count := 2, debug_suspend_count := 1 \<rparr>)"
    by (simp add: new_Thread_def example_env_def ModifySuspendCount_def in_int_range_def)
  from ModifySuspendCount_invariant_paired[OF inv ok, of 4] run inv ok
  show ?thesis by simp
qed

text \<open>
  C6: a call \<open>ModifySuspendCount(-1, _)\<close> made while \<open>suspend_count <= 0\<close> (and passing
  the debug assertions of its first lines, where the build has them) leaves the thread
  as it is when the thread still carries its start-up name, and otherwise aborts: the
  fatal message is the last line logged and ends with the dump of the thread list.
\<close>

theorem ModifySuspendCount_decrement_at_zero:
  assumes "suspend_count t \<le> 0"
    and "kIsDebugBuild env \<Longrightarrow>
           debug_suspend_count t \<le> suspend_count t \<and> suspend_count_lock_held env"
  shows "if IsStillStarting t
         then ModifySuspendCount env (-1) for_debugger t = Inr t
         else \<exists>warnings. ModifySuspendCount env (-1) for_debugger t =
                Inl (Fatal (warnings @
                  [self_printed env @ '' suspend count already zero.\<newline>'' @ thread_list_dump env]))"
  using assms
  by (auto simp: ModifySuspendCount_def UnsafeLogFatalForSuspendCount_def)

theorem ModifySuspendCount_decrement_at_zero_witness:
  "IsStillStarting new_Thread \<and>
   ModifySuspendCount example_env (-1) True new_Thread = Inr new_Thread \<and>
   \<not> IsStillStarting (new_Thread\<lparr> name := ''main'' \<rparr>) \<and>
   ModifySuspendCount example_env (-1) False (new_Thread\<lparr> name := ''main'' \<rparr>) =
     Inl (Fatal [''Dumping thread list without holding thread_list_lock_'',
                 ''0x1000 suspend count already zero.\<newline>DALVIK THREADS:''])"
proof -
  have a: "suspend_count new_Thread \<le> 0" "suspend_count (new_Thread\<lparr> name := ''main'' \<rparr>) \<le> 0"
    by (simp_all add: new_Thread_def)
  have b: "debug_suspend_count new_Thread \<le> suspend_count new_Thread \<and>
           suspend_count_lock_held example_env"
    "debug_suspend_count (new_Thread\<lparr> name := ''main'' \<rparr>)
       \<le> suspend_count (new_Thread\<lparr> name := ''main'' \<rparr>) \<and>
     suspend_count_lock_held example_env"
    by (simp_all add: new_Thread_def example_env_def)
  have s: "IsStillStarting new_Thread" "\<not> IsStillStarting (new_Thread\<lparr> name := ''main'' \<rparr>)"
    by (simp_all add: IsStillStarting_def new_Thread_def kThreadNameDuringStartup_def)
  from ModifySuspendCount_decrement_at_zero[OF a(1) b(1), of True] s(1)
  have 1: "ModifySuspendCount example_env (-1) True new_Thread = Inr new_Thread"
    by simp
  from ModifySuspendCount_decrement_at_zero[OF a(2) b(2), of False] s(2)
  obtain ws where 2: "ModifySuspendCount example_env (-1) False (new_Thread\<lparr> name := ''main'' \<rparr>) =
     Inl (Fatal (ws @ [self_printed example_env @ '' suspend count already zero.\<newline>'' @
       thread_list_dump example_env]))"
    by auto
  have 3: "ModifySuspendCount example_env (-1) False (new_Thread\<lparr> name := ''main'' \<rparr>) =
     Inl (Fatal [''Dumping thread list without holding thread_list_lock_'',
                 ''0x1000 suspend count already zero.\<newline>DALVIK THREADS:''])"
    using 2 s(2)
    by (simp add: ModifySuspendCount_def UnsafeLogFatalForSuspendCount_def example_env_def
        new_Thread_def)
  from 1 3 s show ?thesis by simp
qed

section \<open>Properties of the dump visitor\<close>

lemma VisitFrame_new_run:
  assumes "GetMethod f \<noteq> NULL" "\<not> IsRuntimeMethod env (GetMethod f)"
    and "\<not> (frame_line_number env f = last_line_number v \<and> last_method v = GetMethod f)"
  shows "StackDumpVisitor_VisitFrame env f v =
     Inr (v\<lparr> os := os v @
               (if repetition_count v \<ge> kMaxRepetition
                then [repeated_line (repetition_count v - kMaxRepetition)] else []) @
               [frame_line env (GetMethod f) (frame_line_number env f)] @
               (if frame_count v = 0 then [DescribeWait env] else []) @
               (if can_allocate v then [DescribeLocks env f] else []),
             repetition_count := 0, last_line_number := frame_line_number env f,
             last_method := GetMethod f, frame_count := frame_count v + 1 \<rparr>, True)"
  using assms
  by (auto simp add: StackDumpVisitor_VisitFrame_def Let_def kMaxRepetition_def)

lemma VisitFrame_same_run:
  assumes "GetMethod f \<noteq> NULL" "\<not> IsRuntimeMethod env (GetMethod f)"
    and "frame_line_number env f = last_line_number v" "last_method v = GetMethod f"
  shows "StackDumpVisitor_VisitFrame env f v =
     Inr (v\<lparr> os := os v @
               (if repetition_count v + 1 < kMaxRepetition
                then [frame_line env (GetMethod f) (frame_line_number env f)] @
                     (if frame_count v = 0 then [DescribeWait env] else []) @
                     (if can_allocate v then [DescribeLocks env f] else [])
                else []),
             repetition_count := repetition_count v + 1,
             frame_count := frame_count v + 1 \<rparr>, True)"
  using assms
  by (simp add: StackDumpVisitor_VisitFrame_def Let_def kMaxRepetition_def)

text \<open>
  C9: what the code does on five consecutive frames with the same method and line
  (\<open>f1\<close> to \<open>f5\<close>) followed by a different frame \<open>f6\<close>, walked by a new visitor. The
  frame line is written for the first three (while \<open>repetition_count\<close> is 0, 1, 2),
  the fourth and fifth are left out, and at \<open>f6\<close> the counter stands at 4, so the line
  written is \<open>repeated 1 times\<close>, not the \<open>repeated 2 times\<close> of the claim: the counter
  starts at 0 on the first frame of a run and so is one less than the number of frames.
\<close>

theorem StackDumpVisitor_five_identical_frames:
  assumes m: "m \<noteq> NULL" "\<not> IsRuntimeMethod env m"
    and run: "\<forall>f \<in> set [f1, f2, f3, f4, f5]. GetMethod f = m \<and> frame_line_number env f = l"
    and nxt: "GetMethod f6 \<noteq> NULL" "\<not> IsRuntimeMethod env (GetMethod f6)"
       "\<not> (GetMethod f6 = m \<and> frame_line_number env f6 = l)"
  shows "\<exists>v'. WalkStack (StackDumpVisitor_VisitFrame env) [f1, f2, f3, f4, f5, f6]
           (new_StackDumpVisitor ca) = Inr v' \<and>
         os v' =
           [frame_line env m l, DescribeWait env] @ (if ca then [DescribeLocks env f1] else []) @
           [frame_line env m l] @ (if ca then [DescribeLocks env f2] else []) @
           [frame_line env m l] @ (if ca then [DescribeLocks env f3] else []) @
           [''  ... repeated 1 times\<newline>''] @
           [frame_line env (GetMethod f6) (frame_line_number env f6)] @
           (if ca then [DescribeLocks env f6] else [])"
proof -
  let ?V = "StackDumpVisitor_VisitFrame env"
  let ?K = "\<lambda>f. if ca then [DescribeLocks env f] else []"
  define v0 where "v0 = new_StackDumpVisitor ca"
  define v1 where "v1 = v0\<lparr> os := [frame_line env m l, DescribeWait env] @ ?K f1,
    repetition_count := 0, last_line_number := l, last_method := m, frame_count := 1 \<rparr>"
  define v2 where "v2 = v1\<lparr> os := os v1 @ [frame_line env m l] @ ?K f2,
    repetition_count := 1, frame_count := 2 \<rparr>"
  define v3 where "v3 = v2\<lparr> os := os v2 @ [frame_line env m l] @ ?K f3,
    repetition_count := 2, frame_count := 3 \<rparr>"
  define v4 where "v4 = v3\<lparr> repetition_count := 3, frame_count := 4 \<rparr>"
  define v5 where "v5 = v4\<lparr> repetition_count := 4, frame_count := 5 \<rparr>"
  define v6 where "v6 = v5\<lparr> os := os v5 @ [repeated_line 1] @
      [frame_line env (GetMethod f6) (frame_line_number env f6)] @ ?K f6,
    repetition_count := 0, last_line_number := frame_line_number env f6,
    last_method := GetMethod f6, frame_count := 6 \<rparr>"
  note defs = v0_def v1_def v2_def v3_def v4_def v5_def v6_def new_StackDumpVisitor_def
    kMaxRepetition_def
  from run have fs: "GetMethod f1 = m" "GetMethod f2 = m" "GetMethod f3 = m" "GetMethod f4 = m"
    "GetMethod f5 = m" "frame_line_number env f1 = l" "frame_line_number env f2 = l"
    "frame_line_number env f3 = l" "frame_line_number env f4 = l" "frame_line_number env f5 = l"
    by simp_all
  have s1: "?V f1 v0 = Inr (v1, True)"
    using m fs by (subst VisitFrame_new_run) (auto simp: defs)
  have s2: "?V f2 v1 = Inr (v2, True)"
    using m fs by (subst VisitFrame_same_run) (auto simp: defs)
  have s3: "?V f3 v2 = Inr (v3, True)"
    using m fs by (subst VisitFrame_same_run) (auto simp: defs)
  have s4: "?V f4 v3 = Inr (v4, True)"
    using m fs by (subst VisitFrame_same_run) (auto simp: defs)
  have s5: "?V f5 v4 = Inr (v5, True)"
    using m fs by (subst VisitFrame_same_run) (auto simp: defs)
  have s6: "?V f6 v5 = Inr (v6, True)"
    using nxt by (subst VisitFrame_new_run) (auto simp: defs)
  have walk: "WalkStack ?V [f1, f2, f3, f4, f5, f6] v0 = Inr v6"
    by (simp add: s1 s2 s3 s4 s5 s6)
  have out: "repeated_line 1 = ''  ... repeated 1 times\<newline>''"
    by (simp add: repeated_line_def decimal_int_def)
  have "os v6 = [frame_line env m l, DescribeWait env] @ ?K f1 @
           [frame_line env m l] @ ?K f2 @ [frame_line env m l] @ ?K f3 @
           [''  ... repeated 1 times\<newline>''] @
           [frame_line env (GetMethod f6) (frame_line_number env f6)] @ ?K f6"
    by (simp add: v0_def v1_def v2_def v3_def v4_def v5_def v6_def out)
  with walk show ?thesis unfolding v0_def by simp
qed

text \<open>
  Four identical frames followed by a different one: the fourth frame is left out and
  the line written for it reads \<open>repeated 0 times\<close>.
\<close>

lemma StackDumpVisitor_four_identical_frames:
  "WalkStack (StackDumpVisitor_VisitFrame example_dump_env)
     [\<lparr>GetMethod = 100, GetDexPc = 7\<rparr>, \<lparr>GetMethod = 100, GetDexPc = 7\<rparr>,
      \<lparr>GetMethod = 100, GetDexPc = 7\<rparr>, \<lparr>GetMethod = 100, GetDexPc = 7\<rparr>,
      \<lparr>GetMethod = 200, GetDexPc = 12\<rparr>]
     (new_StackDumpVisitor False) =
   Inr \<lparr> os = [''  at Foo.loop(Foo.java:7)\<newline>'', [],
                ''  at Foo.loop(Foo.java:7)\<newline>'', ''  at Foo.loop(Foo.java:7)\<newline>'',
                ''  ... repeated 0 times\<newline>'', ''  at Foo.main(Foo.java:12)\<newline>''],
          can_allocate = False, last_method = 200, last_line_number = 12,
          repetition_count = 0, frame_count = 5 \<rparr>"
  by (simp add: StackDumpVisitor_VisitFrame_def new_StackDumpVisitor_def example_dump_env_def
      frame_line_number_def frame_line_def repeated_line_def decimal_int_def NULL_def
      kMaxRepetition_def Let_def)

text \<open>The five frames of the theorem on the example stack.\<close>

theorem StackDumpVisitor_five_identical_frames_witness:
  "WalkStack (StackDumpVisitor_VisitFrame example_dump_env)
     [\<lparr>GetMethod = 100, GetDexPc = 7\<rparr>, \<lparr>GetMethod = 100, GetDexPc = 7\<rparr>,
      \<lparr>GetMethod = 100, GetDexPc = 7\<rparr>, \<lparr>GetMethod = 100, GetDexPc = 7\<rparr>,
      \<lparr>GetMethod = 100, GetDexPc = 7\<rparr>, \<lparr>GetMethod = 200, GetDexPc = 12\<rparr>]
     (new_StackDumpVisitor False) =
   Inr \<lparr> os = [''  at Foo.loop(Foo.java:7)\<newline>'', [],
                ''  at Foo.loop(Foo.java:7)\<newline>'', ''  at Foo.loop(Foo.java:7)\<newline>'',
                ''  ... repeated 1 times\<newline>'', ''  at Foo.main(Foo.java:12)\<newline>''],
          can_allocate = False, last_method = 200, last_line_number = 12,
          repetition_count = 0, frame_count = 6 \<rparr>"
proof -
  let ?f = "\<lparr>GetMethod = 100, GetDexPc = 7\<rparr>"
  let ?g = "\<lparr>GetMethod = 200, GetDexPc = 12\<rparr>"
  have 1: "(100::nat) \<noteq> NULL" "\<not> IsRuntimeMethod example_dump_env 100"
    by (simp_all add: NULL_def example_dump_env_def)
  have 2: "\<forall>f \<in> set [?f, ?f, ?f, ?f, ?f].
             GetMethod f = 100 \<and> frame_line_number example_dump_env f = 7"
    by (simp add: frame_line_number_def example_dump_env_def NULL_def)
  have 3: "GetMethod ?g \<noteq> NULL" "\<not> IsRuntimeMethod example_dump_env (GetMethod ?g)"
    "\<not> (GetMethod ?g = 100 \<and> frame_line_number example_dump_env ?g = 7)"
    by (simp_all add: NULL_def example_dump_env_def)
  from StackDumpVisitor_five_identical_frames[OF 1 2 3, of False]
  obtain v' where w: "WalkStack (StackDumpVisitor_VisitFrame example_dump_env)
      [?f, ?f, ?f, ?f, ?f, ?g] (new_StackDumpVisitor False) = Inr v'"
    and o: "os v' = [frame_line example_dump_env 100 7, DescribeWait example_dump_env,
       frame_line example_dump_env 100 7, frame_line example_dump_env 100 7,
       ''  ... repeated 1 times\<newline>'',
       frame_line example_dump_env (GetMethod ?g) (frame_line_number example_dump_env ?g)]"
    by auto
  have "WalkStack (StackDumpVisitor_VisitFrame example_dump_env)
      [?f, ?f, ?f, ?f, ?f, ?g] (new_StackDumpVisitor False) =
    Inr \<lparr> os = [''  at Foo.loop(Foo.java:7)\<newline>'', [],
                ''  at Foo.loop(Foo.java:7)\<newline>'', ''  at Foo.loop(Foo.java:7)\<newline>'',
                ''  ... repeated 1 times\<newline>'', ''  at Foo.main(Foo.java:12)\<newline>''],
          can_allocate = False, last_method = 200, last_line_number = 12,
          repetition_count = 0, frame_count = 6 \<rparr>"
    by (simp add: StackDumpVisitor_VisitFrame_def new_StackDumpVisitor_def example_dump_env_def
        frame_line_number_def frame_line_def repeated_line_def decimal_int_def NULL_def
        kMaxRepetition_def Let_def)
  with w o show ?thesis by simp
qed

section \<open>Properties of the reference resolver\<close>

text \<open>
  C8: for a handle that is not \<^verbatim>\<open>NULL\<close> and whose kind is local, global or weak
  global, with \<open>entry\<close> what its table holds: a weak global whose entry is the cleared
  sentinel resolves to \<^verbatim>\<open>NULL\<close> with no error and no heap call; any other such handle
  whose entry is \<^verbatim>\<open>NULL\<close> ends in the fatal "use of deleted" abort; and an entry that
  is neither \<^verbatim>\<open>NULL\<close> nor a sentinel is returned after exactly one \<^verbatim>\<open>VerifyObject\<close> call
  on it.
\<close>

theorem DecodeJObject_recognized:
  assumes "obj \<noteq> NULL"
    and "table_entry env obj = Some entry"
    and "checks_DCHECK env \<Longrightarrow> CanAccessDirectReferences env"
  shows "(GetIndirectRefKind env obj = kWeakGlobal \<and> entry = kClearedJniWeakGlobal env \<longrightarrow>
            DecodeJObject env obj = Inr (NULL, [])) \<and>
         (\<not> (GetIndirectRefKind env obj = kWeakGlobal \<and> entry = kClearedJniWeakGlobal env) \<and>
          entry = NULL \<longrightarrow>
            DecodeJObject env obj =
              Inl (Fatal [''use of deleted '' @ ToStr env (GetIndirectRefKind env obj) @ '' '' @
                          print_pointer env obj])) \<and>
         (entry \<noteq> NULL \<and> entry \<noteq> kClearedJniWeakGlobal env \<and>
          entry \<noteq> kInvalidIndirectRefObject env \<longrightarrow>
            DecodeJObject env obj = Inr (entry, [VerifyObject entry]))"
  using assms
  by (cases "GetIndirectRefKind env obj")
     (auto simp: DecodeJObject_def DecodeJObject_check_def table_entry_def)

theorem DecodeJObject_recognized_witness:
  "DecodeJObject example_decode_env 7 = Inr (NULL, []) \<and>
   DecodeJObject example_decode_env 11 =
     Inl (Fatal [''use of deleted weak global reference 0x11'']) \<and>
   DecodeJObject example_decode_env 6 =
     Inl (Fatal [''use of deleted global reference 0x6'']) \<and>
   DecodeJObject example_decode_env 5 = Inr (4096, [VerifyObject 4096])"
proof -
  have k: "GetIndirectRefKind example_decode_env 7 = kWeakGlobal"
    "GetIndirectRefKind example_decode_env 11 = kWeakGlobal"
    "GetIndirectRefKind example_decode_env 6 = kGlobal"
    "GetIndirectRefKind example_decode_env 5 = kLocal"
    by (simp_all add: example_decode_env_def)
  have e: "table_entry example_decode_env 7 = Some 3735882292"
    "table_entry example_decode_env 11 = Some 0"
    "table_entry example_decode_env 6 = Some 0"
    "table_entry example_decode_env 5 = Some 4096"
    by (simp_all add: table_entry_def example_decode_env_def)
  have n: "(7::nat) \<noteq> NULL" "(11::nat) \<noteq> NULL" "(6::nat) \<noteq> NULL" "(5::nat) \<noteq> NULL"
    by (simp_all add: NULL_def)
  have c: "CanAccessDirectReferences example_decode_env"
    by (simp add: example_decode_env_def)
  have v: "kClearedJniWeakGlobal example_decode_env = 3735882292"
    "kInvalidIndirectRefObject example_decode_env = 3735896865"
    "ToStr example_decode_env kWeakGlobal = ''weak global reference''"
    "ToStr example_decode_env kGlobal = ''global reference''"
    "print_pointer example_decode_env 11 = ''0x11''"
    "print_pointer example_decode_env 6 = ''0x6''"
    by (simp_all add: example_decode_env_def)
  from DecodeJObject_recognized[OF n(1) e(1) c] k v
  have 1: "DecodeJObject example_decode_env 7 = Inr (NULL, [])" by simp
  from DecodeJObject_recognized[OF n(2) e(2) c] k v
  have 2: "DecodeJObject example_decode_env 11 =
     Inl (Fatal [''use of deleted weak global reference 0x11''])"
    by (simp add: NULL_def)
  from DecodeJObject_recognized[OF n(3) e(3) c] k v
  have 3: "DecodeJObject example_decode_env 6 =
     Inl (Fatal [''use of deleted global reference 0x6''])"
    by (simp add: NULL_def)
  from DecodeJObject_recognized[OF n(4) e(4) c] k v
  have 4: "DecodeJObject example_decode_env 5 = Inr (4096, [VerifyObject 4096])"
    by (simp add: NULL_def)
  from 1 2 3 4 show ?thesis by simp
qed

section \<open>Properties of \<^verbatim>\<open>ThrowOutOfMemoryError\<close>\<close>

text \<open>
  C10: a call of \<open>ThrowOutOfMemoryError\<close> made while the guard
  \<open>throwing_OutOfMemoryError\<close> is set (a throw by the same thread is in progress) makes
  no JNI call: it returns the machine as it was, but for the pending exception, which is
  the runtime's pre-allocated \<^verbatim>\<open>OutOfMemoryError\<close>, and the guard, which is clear; so the
  heap has no new object. And whenever a call returns, in either case and whatever the
  JNI calls did, the guard is clear.
\<close>

theorem ThrowOutOfMemoryError_guard:
  "(throwing_OutOfMemoryError (thread vm) \<longrightarrow>
      ThrowOutOfMemoryError env msg vm =
        Inr (vm\<lparr> thread := (thread vm)\<lparr> exception := GetPreAllocatedOutOfMemoryError env,
                                        throwing_OutOfMemoryError := False \<rparr> \<rparr>)) \<and>
   (\<forall>vm'. ThrowOutOfMemoryError env msg vm = Inr vm' \<longrightarrow>
      \<not> throwing_OutOfMemoryError (thread vm') \<and>
      (throwing_OutOfMemoryError (thread vm) \<longrightarrow>
         allocated vm' = allocated vm \<and>
         exception (thread vm') = GetPreAllocatedOutOfMemoryError env))"
  by (auto simp: ThrowOutOfMemoryError_def SetException_def split: sum.splits)

text \<open>
  Both cases on the example machine: a call with the guard set, and a call with the
  guard clear whose allocation fails and re-enters \<open>ThrowOutOfMemoryError\<close>.
\<close>

theorem ThrowOutOfMemoryError_guard_witness:
  "throwing_OutOfMemoryError
     (thread (example_vm\<lparr> thread := new_Thread\<lparr> throwing_OutOfMemoryError := True \<rparr> \<rparr>)) \<and>
   ThrowOutOfMemoryError heap_full_env ''Failed to allocate''
       (example_vm\<lparr> thread := new_Thread\<lparr> throwing_OutOfMemoryError := True \<rparr> \<rparr>) =
     Inr (example_vm\<lparr> thread := new_Thread\<lparr> exception := 8192 \<rparr> \<rparr>) \<and>
   ThrowOutOfMemoryError heap_full_env ''Failed to allocate'' example_vm =
     Inr (example_vm\<lparr> thread := new_Thread\<lparr> exception := 8192 \<rparr> \<rparr>) \<and>
   \<not> throwing_OutOfMemoryError (thread (example_vm\<lparr> thread := new_Thread\<lparr> exception := 8192 \<rparr> \<rparr>))"
proof -
  let ?vm = "example_vm\<lparr> thread := new_Thread\<lparr> throwing_OutOfMemoryError := True \<rparr> \<rparr>"
  have g: "throwing_OutOfMemoryError (thread ?vm)" by simp
  have p: "GetPreAllocatedOutOfMemoryError heap_full_env = 8192"
    by (simp add: heap_full_env_def idle_throw_env_def)
  from ThrowOutOfMemoryError_guard[of ?vm heap_full_env "''Failed to allocate''"] g p
  have 1: "ThrowOutOfMemoryError heap_full_env ''Failed to allocate'' ?vm =
     Inr (example_vm\<lparr> thread := new_Thread\<lparr> exception := 8192 \<rparr> \<rparr>)"
    by (simp add: new_Thread_def example_vm_def)
  have 2: "ThrowOutOfMemoryError heap_full_env ''Failed to allocate'' example_vm =
     Inr (example_vm\<lparr> thread := new_Thread\<lparr> exception := 8192 \<rparr> \<rparr>)"
    by (simp add: ThrowOutOfMemoryError_def ThrowNewException_def ThrowNewWrappedException_def
        heap_full_env_def idle_throw_env_def example_vm_def new_Thread_def
        IsExceptionPending_def ClearException_def SetException_def NULL_def JNI_OK_def
        CHECK_IsExceptionPending_def GetException_def)
  from ThrowOutOfMemoryError_guard[of example_vm heap_full_env "''Failed to allocate''"] 2
  have 3: "\<not> throwing_OutOfMemoryError
             (thread (example_vm\<lparr> thread := new_Thread\<lparr> exception := 8192 \<rparr> \<rparr>))"
    by blast
  from g 1 2 3 show ?thesis by blast
qed

section \<open>Properties of exception delivery\<close>

lemma VisitFrame_find_keeps:
  "VisitFrame_find env f dex_pc v = (v', c) \<Longrightarrow>
     to_find v' = to_find v \<and> method_tracing_active v' = method_tracing_active v \<and>
     self v' = self v \<and> exception_thrown v' = exception_thrown v \<and> context_ptr v' = context_ptr v \<and>
     last_no_assert_suspension_cause v' = last_no_assert_suspension_cause v"
  by (auto simp: VisitFrame_find_def Let_def split: if_splits)

lemma VisitFrame_keeps:
  "CatchBlockStackVisitor_VisitFrame env f v = Inr (v', c) \<Longrightarrow>
     to_find v' = to_find v \<and> method_tracing_active v' = method_tracing_active v \<and>
     self v' = self v \<and> exception_thrown v' = exception_thrown v \<and> context_ptr v' = context_ptr v \<and>
     last_no_assert_suspension_cause v' = last_no_assert_suspension_cause v"
  by (auto simp: CatchBlockStackVisitor_VisitFrame_def Let_def split: if_splits
      dest!: VisitFrame_find_keeps)

lemma VisitFrame_continues:
  assumes "\<not> decides env (to_find v) (method_tracing_active v) f" "passes_DCHECK env f"
  shows "\<exists>v'. CatchBlockStackVisitor_VisitFrame env f v = Inr (v', True)"
  using assms
  by (auto simp: CatchBlockStackVisitor_VisitFrame_def Let_def decides_def catches_def
      is_upcall_def current_dex_pc_def passes_DCHECK_def VisitFrame_find_def split: if_splits)

lemma VisitFrame_stops:
  assumes "decides env (to_find v) (method_tracing_active v) f"
  shows "\<exists>v'. CatchBlockStackVisitor_VisitFrame env f v = Inr (v', False) \<and>
      handler_quick_frame v' = GetCurrentQuickFrame f \<and>
      (if is_upcall f
       then handler_quick_frame_pc v' = GetCurrentQuickFramePc f \<and>
            handler_dex_pc v' = handler_dex_pc v
       else handler_dex_pc v' =
              FindCatchBlock env (GetMethod f) (to_find v)
                (current_dex_pc env (method_tracing_active v) f) \<and>
            handler_quick_frame_pc v' = ToNativePC env (GetMethod f) (handler_dex_pc v'))"
  using assms
  by (auto simp: CatchBlockStackVisitor_VisitFrame_def Let_def decides_def catches_def
      is_upcall_def current_dex_pc_def passes_DCHECK_def VisitFrame_find_def split: if_splits)

lemma walk_skips:
  assumes "\<forall>g \<in> set pre. \<not> decides env (to_find v) (method_tracing_active v) g \<and> passes_DCHECK env g"
  shows "\<exists>v1. WalkStack (CatchBlockStackVisitor_VisitFrame env) pre v = Inr v1 \<and>
           to_find v1 = to_find v \<and> method_tracing_active v1 = method_tracing_active v \<and>
           (\<forall>rest. WalkStack (CatchBlockStackVisitor_VisitFrame env) (pre @ rest) v =
                   WalkStack (CatchBlockStackVisitor_VisitFrame env) rest v1)"
  using assms
proof (induction pre arbitrary: v)
  case Nil
  then show ?case by simp
next
  case (Cons g pre)
  from Cons.prems have g: "\<not> decides env (to_find v) (method_tracing_active v) g"
    "passes_DCHECK env g" by simp_all
  from VisitFrame_continues[OF g] obtain v0 where
    s: "CatchBlockStackVisitor_VisitFrame env g v = Inr (v0, True)" by blast
  from VisitFrame_keeps[OF s] have k: "to_find v0 = to_find v"
    "method_tracing_active v0 = method_tracing_active v" by simp_all
  from Cons.prems k have
    "\<forall>g \<in> set pre. \<not> decides env (to_find v0) (method_tracing_active v0) g \<and> passes_DCHECK env g"
    by simp
  from Cons.IH[OF this] obtain v1 where
    "WalkStack (CatchBlockStackVisitor_VisitFrame env) pre v0 = Inr v1"
    "to_find v1 = to_find v0" "method_tracing_active v1 = method_tracing_active v0"
    "\<forall>rest. WalkStack (CatchBlockStackVisitor_VisitFrame env) (pre @ rest) v0 =
                   WalkStack (CatchBlockStackVisitor_VisitFrame env) rest v1"
    by blast
  with s k show ?case by simp
qed

text \<open>
  C4: the search visits the frames innermost first and stops at the first frame that
  decides. For a stack \<open>pre @ f # post\<close> in which no frame of \<open>pre\<close> decides (none is
  the upcall marker, none catches) and \<open>f\<close> does, the walk ends at \<open>f\<close>: the frames of
  \<open>post\<close> are not visited (the result is that of the walk over \<open>pre @ [f]\<close>), and \<open>f\<close> is
  recorded as the transfer target, with its own pc when it is the upcall marker and
  otherwise with the dex pc \<^verbatim>\<open>FindCatchBlock\<close> found and its native pc. So of several
  frames with a matching handler the innermost wins.
\<close>

theorem catch_search_first_deciding_frame:
  assumes skipped: "\<forall>g \<in> set pre.
        \<not> decides env (to_find v) (method_tracing_active v) g \<and> passes_DCHECK env g"
    and first: "decides env (to_find v) (method_tracing_active v) f"
  shows "\<exists>v'. WalkStack (CatchBlockStackVisitor_VisitFrame env) (pre @ f # post) v = Inr v' \<and>
           WalkStack (CatchBlockStackVisitor_VisitFrame env) (pre @ [f]) v = Inr v' \<and>
           handler_quick_frame v' = GetCurrentQuickFrame f \<and>
           (if is_upcall f
            then handler_quick_frame_pc v' = GetCurrentQuickFramePc f
            else handler_dex_pc v' =
                   FindCatchBlock env (GetMethod f) (to_find v)
                     (current_dex_pc env (method_tracing_active v) f) \<and>
                 handler_quick_frame_pc v' = ToNativePC env (GetMethod f) (handler_dex_pc v'))"
proof -
  from walk_skips[OF skipped] obtain v1 where
    w: "WalkStack (CatchBlockStackVisitor_VisitFrame env) pre v = Inr v1"
    and k: "to_find v1 = to_find v" "method_tracing_active v1 = method_tracing_active v"
    and r: "\<forall>rest. WalkStack (CatchBlockStackVisitor_VisitFrame env) (pre @ rest) v =
                   WalkStack (CatchBlockStackVisitor_VisitFrame env) rest v1"
    by blast
  from first k have "decides env (to_find v1) (method_tracing_active v1) f" by simp
  from VisitFrame_stops[OF this] obtain v' where
    s: "CatchBlockStackVisitor_VisitFrame env f v1 = Inr (v', False)"
    and h: "handler_quick_frame v' = GetCurrentQuickFrame f"
      "if is_upcall f
       then handler_quick_frame_pc v' = GetCurrentQuickFramePc f \<and>
            handler_dex_pc v' = handler_dex_pc v1
       else handler_dex_pc v' =
              FindCatchBlock env (GetMethod f) (to_find v1)
                (current_dex_pc env (method_tracing_active v1) f) \<and>
            handler_quick_frame_pc v' = ToNativePC env (GetMethod f) (handler_dex_pc v')"
    by blast
  from r s have "WalkStack (CatchBlockStackVisitor_VisitFrame env) (pre @ f # post) v = Inr v'"
    "WalkStack (CatchBlockStackVisitor_VisitFrame env) (pre @ [f]) v = Inr v'"
    by simp_all
  with h k show ?thesis by (auto split: if_splits)
qed

theorem catch_search_first_deciding_frame_witness:
  "(\<exists>v'. WalkStack (CatchBlockStackVisitor_VisitFrame example_catch_env)
            [frame_of 100, frame_of 100, frame_of 200, upcall_frame]
            (catch_finder example_catch_env throwing_thread) = Inr v' \<and>
         handler_quick_frame v' = 1200 \<and> handler_dex_pc v' = 40 \<and>
         handler_quick_frame_pc v' = 640) \<and>
   (\<exists>v'. WalkStack (CatchBlockStackVisitor_VisitFrame example_catch_env)
            [frame_of 100, frame_of 200, frame_of 300, upcall_frame]
            (catch_finder example_catch_env throwing_thread) = Inr v' \<and>
         handler_quick_frame v' = 1200 \<and> handler_dex_pc v' = 40) \<and>
   (\<exists>v'. WalkStack (CatchBlockStackVisitor_VisitFrame example_catch_env)
            [frame_of 100, upcall_frame, frame_of 200]
            (catch_finder example_catch_env throwing_thread) = Inr v' \<and>
         handler_quick_frame v' = 5000 \<and> handler_quick_frame_pc v' = 9000)"
proof -
  let ?v = "catch_finder example_catch_env throwing_thread"
  have v: "to_find ?v = 600" "method_tracing_active ?v = False"
    by (simp_all add: catch_finder_def new_CatchBlockStackVisitor_def Let_def
        GetLongJumpContext_def StartAssertNoThreadSuspension_def example_catch_env_def
        split: prod.splits)
  have d100: "\<not> decides example_catch_env 600 False (frame_of 100) \<and>
              passes_DCHECK example_catch_env (frame_of 100)"
    by (simp add: decides_def catches_def is_upcall_def current_dex_pc_def passes_DCHECK_def
        frame_of_def example_catch_env_def NULL_def)
  have d200: "decides example_catch_env 600 False (frame_of 200)"
    "\<not> is_upcall (frame_of 200)"
    "FindCatchBlock example_catch_env (GetMethod (frame_of 200)) 600
       (current_dex_pc example_catch_env False (frame_of 200)) = 40"
    "ToNativePC example_catch_env (GetMethod (frame_of 200)) 40 = 640"
    "GetCurrentQuickFrame (frame_of 200) = 1200"
    by (simp_all add: decides_def catches_def is_upcall_def current_dex_pc_def
        frame_of_def example_catch_env_def NULL_def)
  have up: "decides example_catch_env 600 False upcall_frame" "is_upcall upcall_frame"
    "GetCurrentQuickFrame upcall_frame = 5000" "GetCurrentQuickFramePc upcall_frame = 9000"
    by (simp_all add: decides_def is_upcall_def upcall_frame_def)
  have 1: "\<forall>g \<in> set [frame_of 100, frame_of 100].
        \<not> decides example_catch_env (to_find ?v) (method_tracing_active ?v) g \<and>
        passes_DCHECK example_catch_env g"
    using d100 v by simp
  have 2: "\<forall>g \<in> set [frame_of 100].
        \<not> decides example_catch_env (to_find ?v) (method_tracing_active ?v) g \<and>
        passes_DCHECK example_catch_env g"
    using d100 v by simp
  have f: "decides example_catch_env (to_find ?v) (method_tracing_active ?v) (frame_of 200)"
    "decides example_catch_env (to_find ?v) (method_tracing_active ?v) upcall_frame"
    using d200 up v by simp_all
  from catch_search_first_deciding_frame[OF 1 f(1), of "[upcall_frame]"] d200 v
  have a: "\<exists>v'. WalkStack (CatchBlockStackVisitor_VisitFrame example_catch_env)
            [frame_of 100, frame_of 100, frame_of 200, upcall_frame] ?v = Inr v' \<and>
         handler_quick_frame v' = 1200 \<and> handler_dex_pc v' = 40 \<and>
         handler_quick_frame_pc v' = 640"
    by auto
  from catch_search_first_deciding_frame[OF 2 f(1), of "[frame_of 300, upcall_frame]"] d200 v
  have b: "\<exists>v'. WalkStack (CatchBlockStackVisitor_VisitFrame example_catch_env)
            [frame_of 100, frame_of 200, frame_of 300, upcall_frame] ?v = Inr v' \<and>
         handler_quick_frame v' = 1200 \<and> handler_dex_pc v' = 40"
    by auto
  from catch_search_first_deciding_frame[OF 2 f(2), of "[frame_of 200]"] up v
  have c: "\<exists>v'. WalkStack (CatchBlockStackVisitor_VisitFrame example_catch_env)
            [frame_of 100, upcall_frame, frame_of 200] ?v = Inr v' \<and>
         handler_quick_frame v' = 5000 \<and> handler_quick_frame_pc v' = 9000"
    by auto
  from a b c show ?thesis by blast
qed

lemma walk_keeps:
  "WalkStack (CatchBlockStackVisitor_VisitFrame env) fs v = Inr v' \<Longrightarrow>
     self v' = self v \<and> exception_thrown v' = exception_thrown v \<and>
     context_ptr v' = context_ptr v \<and>
     last_no_assert_suspension_cause v' = last_no_assert_suspension_cause v"
proof (induction fs arbitrary: v)
  case Nil
  then show ?case by simp
next
  case (Cons f fs)
  from Cons.prems obtain v1 c where
    s: "CatchBlockStackVisitor_VisitFrame env f v = Inr (v1, c)"
    by (auto split: sum.splits)
  note k = VisitFrame_keeps[OF s]
  show ?case
  proof (cases c)
    case True
    with Cons.prems s have "WalkStack (CatchBlockStackVisitor_VisitFrame env) fs v1 = Inr v'"
      by simp
    from Cons.IH[OF this] k show ?thesis by simp
  next
    case False
    with Cons.prems s have "v' = v1" by simp
    with k show ?thesis by simp
  qed
qed

text \<open>
  No frame changes the thread the visitor points to, so a walk in which every frame asks
  the world about that thread is a walk in the world of the thread it started on.
\<close>

lemma walk_world:
  "WalkStack (\<lambda>f v. CatchBlockStackVisitor_VisitFrame (world (self v)) f v) fs v =
   WalkStack (CatchBlockStackVisitor_VisitFrame (world (self v))) fs v"
proof (induction fs arbitrary: v)
  case Nil
  show ?case by simp
next
  case (Cons f fs)
  show ?case
  proof (cases "CatchBlockStackVisitor_VisitFrame (world (self v)) f v")
    case (Inl e)
    then show ?thesis by simp
  next
    case (Inr p)
    obtain v1 c where p: "p = (v1, c)" by (cases p)
    from Inr p have "self v1 = self v" using VisitFrame_keeps by blast
    with Inr p Cons.IH[of v1] show ?thesis by simp
  qed
qed

lemma catch_finder_fields:
  "exception (self (catch_finder env t)) = NULL"
  "exception_thrown (catch_finder env t) = exception t"
  by (simp_all add: catch_finder_def new_CatchBlockStackVisitor_def Let_def
      GetLongJumpContext_def StartAssertNoThreadSuspension_def ClearException_def
      GetException_def split: prod.splits)

lemma DoLongJump_exception:
  "DoLongJump env v = Inr (t', ctx) \<Longrightarrow> exception t' = exception_thrown v"
  by (auto simp: DoLongJump_def Let_def EndAssertNoThreadSuspension_def SetException_def
      ReleaseLongJumpContext_def split: if_splits sum.splits)

text \<open>
  In \<open>example_world\<close> the clearing can be seen: a search started on the thread as it was
  thrown on, with the exception still pending, finds no handler and ends at the upcall
  marker.
\<close>

lemma search_on_pending_thread_finds_no_handler:
  "\<exists>v. WalkStack (\<lambda>f v. CatchBlockStackVisitor_VisitFrame (example_world (self v)) f v)
          [frame_of 100, frame_of 200, frame_of 300, upcall_frame]
          (new_CatchBlockStackVisitor (example_world throwing_thread) throwing_thread 77) =
          Inr v \<and>
        handler_quick_frame v = 5000 \<and> handler_quick_frame_pc v = 9000"
  by (simp add: new_CatchBlockStackVisitor_def Let_def GetLongJumpContext_def
      StartAssertNoThreadSuspension_def throwing_thread_def new_Thread_def NULL_def
      CatchBlockStackVisitor_VisitFrame_def VisitFrame_find_def frame_of_def upcall_frame_def
      example_catch_env_def example_world_def no_handler_found_env_def)

lemma DeliverException_pending:
  "exception t \<noteq> NULL \<Longrightarrow>
   DeliverException world frames t =
     (case WalkStack (\<lambda>f v. CatchBlockStackVisitor_VisitFrame (world (self v)) f v) frames
             (catch_finder (world (ClearException t)) t) of
        Inl e \<Rightarrow> Aborted e
      | Inr v \<Rightarrow>
          (case DoLongJump (world (self v)) v of
             Inl e \<Rightarrow> Aborted e
           | Inr (t', ctx) \<Rightarrow>
               if Context_DoLongJump_returns (world t') then Aborted (Fatal [''UNREACHABLE''])
               else LongJumped t' ctx))"
  by (simp add: DeliverException_def Let_def GetException_def catch_finder_def)

text \<open>
  C5: for a thread \<open>t\<close> with a pending exception,

  \<^item> \<open>DeliverException\<close> has cleared the thread's exception slot before the search starts,
    and has put the exception back before the jump: the call asks the world outside the
    file only about threads whose slot is clear, from the construction of the visitor
    through every \<^verbatim>\<open>VisitFrame\<close> to the reads of \<^verbatim>\<open>DoLongJump\<close>, and asks the jump primitive
    only on a thread whose pending exception is that of \<open>t\<close>. Two worlds that answer alike
    on those threads give the same outcome, whatever the search code would have done on a
    thread that still shows the exception as pending;
  \<^item> when the long jump is taken, the thread's pending exception is exactly the
    exception object that was pending at the call;
  \<^item> the call never comes back to its caller;
  \<^item> when the search and \<^verbatim>\<open>DoLongJump\<close> get as far as the jump, the call ends in the jump,
    or, if the jump primitive did come back, in the fatal \<^verbatim>\<open>UNREACHABLE\<close>.
\<close>

theorem DeliverException_clears_reinstates_never_returns:
  assumes "exception t \<noteq> NULL"
  shows "(\<forall>world'.
        (\<forall>u. exception u = NULL \<longrightarrow> world' u = world u) \<and>
        (\<forall>u. exception u = exception t \<longrightarrow>
              Context_DoLongJump_returns (world' u) = Context_DoLongJump_returns (world u)) \<longrightarrow>
          DeliverException world' frames t = DeliverException world frames t) \<and>
     (\<forall>t' ctx. DeliverException world frames t = LongJumped t' ctx \<longrightarrow>
          exception t' = exception t) \<and>
     (\<forall>t'. DeliverException world frames t \<noteq> Returned t') \<and>
     (\<forall>v t' ctx.
        WalkStack (\<lambda>f v. CatchBlockStackVisitor_VisitFrame (world (self v)) f v) frames
          (catch_finder (world (ClearException t)) t) = Inr v \<and>
        DoLongJump (world (self v)) v = Inr (t', ctx) \<longrightarrow>
          DeliverException world frames t =
            (if Context_DoLongJump_returns (world t') then Aborted (Fatal [''UNREACHABLE''])
             else LongJumped t' ctx))"
proof -
  have cleared: "exception (ClearException t) = NULL"
    by (simp add: ClearException_def)
  have jumped: "exception t' = exception t"
    if w: "WalkStack (\<lambda>f v. CatchBlockStackVisitor_VisitFrame (w (self v)) f v) frames
             (catch_finder (w (ClearException t)) t) = Inr v"
      and j: "DoLongJump (w (self v)) v = Inr (t', ctx)" for w v t' ctx
  proof -
    from w walk_world[of w frames "catch_finder (w (ClearException t)) t"]
    have "WalkStack (CatchBlockStackVisitor_VisitFrame
          (w (self (catch_finder (w (ClearException t)) t)))) frames
          (catch_finder (w (ClearException t)) t) = Inr v"
      by simp
    from walk_keeps[OF this] have "exception_thrown v = exception t"
      by (simp add: catch_finder_fields)
    with DoLongJump_exception[OF j] show ?thesis by simp
  qed
  have a: "DeliverException world' frames t = DeliverException world frames t"
    if agree: "\<forall>u. exception u = NULL \<longrightarrow> world' u = world u"
      and jump: "\<forall>u. exception u = exception t \<longrightarrow>
              Context_DoLongJump_returns (world' u) = Context_DoLongJump_returns (world u)"
    for world'
  proof -
    let ?v0 = "catch_finder (world (ClearException t)) t"
    from agree cleared have v0: "catch_finder (world' (ClearException t)) t = ?v0"
      by simp
    from agree have w0: "world' (self ?v0) = world (self ?v0)"
      by (simp add: catch_finder_fields)
    have walk: "WalkStack (\<lambda>f v. CatchBlockStackVisitor_VisitFrame (world' (self v)) f v)
                  frames ?v0 =
                WalkStack (\<lambda>f v. CatchBlockStackVisitor_VisitFrame (world (self v)) f v)
                  frames ?v0"
      using walk_world[of world' frames ?v0] walk_world[of world frames ?v0] w0 by simp
    show ?thesis
    proof (cases "WalkStack (\<lambda>f v. CatchBlockStackVisitor_VisitFrame (world (self v)) f v)
                    frames ?v0")
      case (Inl e)
      with walk v0 assms show ?thesis by (simp add: DeliverException_pending)
    next
      case (Inr v)
      with walk_world[of world frames ?v0]
      have "WalkStack (CatchBlockStackVisitor_VisitFrame (world (self ?v0))) frames ?v0 =
          Inr v"
        by simp
      from walk_keeps[OF this] have "exception (self v) = NULL"
        by (simp add: catch_finder_fields)
      with agree have wv: "world' (self v) = world (self v)" by simp
      show ?thesis
      proof (cases "DoLongJump (world (self v)) v")
        case (Inl e)
        with Inr walk v0 wv assms show ?thesis by (simp add: DeliverException_pending)
      next
        case j: (Inr p)
        obtain t' ctx where p: "p = (t', ctx)" by (cases p)
        from jumped[OF Inr] j p have "exception t' = exception t" by simp
        with jump have "Context_DoLongJump_returns (world' t') =
            Context_DoLongJump_returns (world t')" by simp
        with Inr j p walk v0 wv assms show ?thesis by (simp add: DeliverException_pending)
      qed
    qed
  qed
  have c: "exception t' = exception t"
    if l: "DeliverException world frames t = LongJumped t' ctx" for t' ctx
  proof (cases "WalkStack (\<lambda>f v. CatchBlockStackVisitor_VisitFrame (world (self v)) f v)
                  frames (catch_finder (world (ClearException t)) t)")
    case (Inl e)
    with l assms show ?thesis by (simp add: DeliverException_pending)
  next
    case (Inr v)
    show ?thesis
    proof (cases "DoLongJump (world (self v)) v")
      case (Inl e)
      with Inr l assms show ?thesis by (simp add: DeliverException_pending)
    next
      case j: (Inr p)
      obtain t1 ctx1 where p: "p = (t1, ctx1)" by (cases p)
      from Inr j p l assms have "t1 = t'"
        by (simp add: DeliverException_pending split: if_splits)
      with jumped[OF Inr] j p show ?thesis by simp
    qed
  qed
  have d: "DeliverException world frames t \<noteq> Returned t'" for t'
    unfolding DeliverException_def Let_def
    by (simp split: sum.splits prod.splits)
  have e: "\<forall>v t' ctx.
        WalkStack (\<lambda>f v. CatchBlockStackVisitor_VisitFrame (world (self v)) f v) frames
          (catch_finder (world (ClearException t)) t) = Inr v \<and>
        DoLongJump (world (self v)) v = Inr (t', ctx) \<longrightarrow>
          DeliverException world frames t =
            (if Context_DoLongJump_returns (world t') then Aborted (Fatal [''UNREACHABLE''])
             else LongJumped t' ctx)"
    using assms by (simp add: DeliverException_pending)
  from a c d e show ?thesis by blast
qed

theorem DeliverException_clears_reinstates_never_returns_witness:
  "exception throwing_thread \<noteq> NULL \<and>
   DeliverException example_world
     [frame_of 100, frame_of 200, frame_of 300, upcall_frame] throwing_thread =
     LongJumped (throwing_thread\<lparr> long_jump_context := 7000 \<rparr>)
       \<lparr> SP = 1200, PC = 640, caller_saves_smashed = True \<rparr> \<and>
   exception (throwing_thread\<lparr> long_jump_context := 7000 \<rparr>) = exception throwing_thread \<and>
   DeliverException (\<lambda>u. example_catch_env\<lparr> Context_DoLongJump_returns := True \<rparr>)
     [frame_of 100, frame_of 200, frame_of 300, upcall_frame] throwing_thread =
     Aborted (Fatal [''UNREACHABLE''])"
proof -
  have p: "exception throwing_thread \<noteq> NULL"
    by (simp add: throwing_thread_def NULL_def)
  note run_defs = DeliverException_def new_CatchBlockStackVisitor_def
      Let_def GetLongJumpContext_def StartAssertNoThreadSuspension_def ClearException_def
      GetException_def throwing_thread_def new_Thread_def NULL_def
      CatchBlockStackVisitor_VisitFrame_def VisitFrame_find_def frame_of_def upcall_frame_def
      example_catch_env_def DoLongJump_def EndAssertNoThreadSuspension_def SetException_def
      ReleaseLongJumpContext_def
  have run: "DeliverException (\<lambda>u. example_catch_env)
     [frame_of 100, frame_of 200, frame_of 300, upcall_frame] throwing_thread =
     LongJumped (throwing_thread\<lparr> long_jump_context := 7000 \<rparr>)
       \<lparr> SP = 1200, PC = 640, caller_saves_smashed = True \<rparr>"
    by (simp add: run_defs)
  have returns: "DeliverException (\<lambda>u. example_catch_env\<lparr> Context_DoLongJump_returns := True \<rparr>)
     [frame_of 100, frame_of 200, frame_of 300, upcall_frame] throwing_thread =
     Aborted (Fatal [''UNREACHABLE''])"
    by (simp add: run_defs)
  have same: "\<forall>u. exception u = NULL \<longrightarrow> example_world u = example_catch_env"
    "\<forall>u. exception u = exception throwing_thread \<longrightarrow>
         Context_DoLongJump_returns (example_world u) =
         Context_DoLongJump_returns example_catch_env"
    by (simp_all add: example_world_def no_handler_found_env_def)
  note C5 = DeliverException_clears_reinstates_never_returns[OF p, of "\<lambda>u. example_catch_env"
      "[frame_of 100, frame_of 200, frame_of 300, upcall_frame]"]
  from C5 same have "DeliverException example_world
     [frame_of 100, frame_of 200, frame_of 300, upcall_frame] throwing_thread =
     DeliverException (\<lambda>u. example_catch_env)
       [frame_of 100, frame_of 200, frame_of 300, upcall_frame] throwing_thread"
    by blast
  moreover from C5 run
  have "exception (throwing_thread\<lparr> long_jump_context := 7000 \<rparr>) = exception throwing_thread"
    by blast
  ultimately show ?thesis using p run returns by simp
qed

section \<open>Properties of the root visitor\<close>

lemma popcount_0 [simp]: "popcount 0 = 0"
  by (simp add: popcount.simps)

lemma popcount_step: "popcount n = n mod 2 + popcount (n div 2)"
  by (cases "n = 0") (simp_all add: popcount.simps[of n])

lemma spill_loop_result:
  "matches < wanted \<Longrightarrow> wanted - matches \<le> popcount m \<Longrightarrow>
   \<exists>j. spill_loop d wanted m matches shifts = Some (Inr (shifts + j + 1)) \<and>
       odd (m div 2 ^ j) \<and> popcount (m mod 2 ^ j) = wanted - matches - 1"
proof (induction m arbitrary: matches shifts rule: less_induct)
  case (less m)
  from less.prems have pos: "0 < popcount m" by simp
  then have m0: "m \<noteq> 0" by (cases "m = 0") simp_all
  have step: "spill_loop d wanted m matches shifts =
      spill_loop d wanted (m div 2) (matches + m mod 2) (shifts + 1)"
    using less.prems m0 by (subst spill_loop.simps) simp
  show ?case
  proof (cases "matches + m mod 2 = wanted")
    case True
    then have "spill_loop d wanted (m div 2) (matches + m mod 2) (shifts + 1) = Some (Inr (shifts + 1))"
      by (subst spill_loop.simps) simp
    moreover from True less.prems have "odd m" "wanted - matches - 1 = 0"
      by (auto simp: odd_iff_mod_2_eq_one)
    ultimately show ?thesis using step
      by (intro exI[of _ 0]) simp
  next
    case False
    with less.prems have lt: "matches + m mod 2 < wanted" by linarith
    have pc: "wanted - (matches + m mod 2) \<le> popcount (m div 2)"
      using less.prems popcount_step[of m] by linarith
    from m0 have "m div 2 < m" by simp
    from less.IH[OF this lt pc, of "shifts + 1"] obtain j where
      j: "spill_loop d wanted (m div 2) (matches + m mod 2) (shifts + 1) = Some (Inr (shifts + 1 + j + 1))"
      "odd (m div 2 div 2 ^ j)" "popcount (m div 2 mod 2 ^ j) = wanted - (matches + m mod 2) - 1"
      by blast
    have a: "m div 2 ^ Suc j = m div 2 div 2 ^ j"
      by (simp add: div_mult2_eq)
    have b: "(m mod 2 ^ Suc j) div 2 = m div 2 mod 2 ^ j"
      by (simp add: mod_mult2_eq)
    have c: "(m mod 2 ^ Suc j) mod 2 = m mod 2"
      by (simp add: mod_mod_cancel)
    have "popcount (m mod 2 ^ Suc j) = m mod 2 + popcount (m div 2 mod 2 ^ j)"
      using popcount_step[of "m mod 2 ^ Suc j"] b c by simp
    with j lt have "popcount (m mod 2 ^ Suc j) = wanted - matches - 1" by linarith
    with j a step show ?thesis
      by (intro exI[of _ "Suc j"]) simp
  qed
qed

lemma popcount_low_bits:
  "popcount (m mod 2 ^ j) = length (filter (\<lambda>i. odd (m div 2 ^ i)) [0..<j])"
proof (induction j arbitrary: m)
  case 0
  then show ?case by simp
next
  case (Suc j)
  have b: "(m mod 2 ^ Suc j) div 2 = m div 2 mod 2 ^ j"
    by (simp add: mod_mult2_eq)
  have c: "(m mod 2 ^ Suc j) mod 2 = m mod 2"
    by (simp add: mod_mod_cancel)
  have "popcount (m mod 2 ^ Suc j) = m mod 2 + popcount (m div 2 mod 2 ^ j)"
    using popcount_step[of "m mod 2 ^ Suc j"] b c by simp
  also have "\<dots> = m mod 2 + length (filter (\<lambda>i. odd (m div 2 div 2 ^ i)) [0..<j])"
    by (simp add: Suc.IH)
  also have "filter (\<lambda>i. odd (m div 2 div 2 ^ i)) [0..<j] =
             filter (\<lambda>i. odd (m div 2 ^ Suc i)) [0..<j]"
    by (simp add: div_mult2_eq)
  also have "m mod 2 + length (filter (\<lambda>i. odd (m div 2 ^ Suc i)) [0..<j]) =
             length (filter (\<lambda>i. odd (m div 2 ^ i)) (0 # map Suc [0..<j]))"
    by (simp add: filter_map comp_def odd_iff_mod_2_eq_one)
  also have "0 # map Suc [0..<j] = [0..<Suc j]"
    by (simp add: map_Suc_upt upt_conv_Cons del: upt_Suc)
  finally show ?case .
qed

lemma filter_nth_position:
  assumes "P j" "j < n"
  shows "filter P [0..<n] ! length (filter P [0..<j]) = (j::nat)"
proof -
  from assms have "[0..<n] = [0..<j] @ j # [Suc j..<n]"
    by (metis le_add_diff_inverse less_imp_le_nat upt_add_eq_append upt_conv_Cons zero_le)
  then have "filter P [0..<n] = filter P [0..<j] @ j # filter P [Suc j..<n]"
    using assms by simp
  then show ?thesis by (simp add: nth_append)
qed

lemma context_register_spilled:
  assumes "vmap_offset < popcount core_spills" "core_spills < 2 ^ 32"
  shows "context_register d core_spills vmap_offset =
           Some (Inr (spilled_register core_spills vmap_offset)) \<and>
         spilled_register core_spills vmap_offset < 32 \<and>
         odd (core_spills div 2 ^ spilled_register core_spills vmap_offset)"
proof -
  from assms have "0 < vmap_offset + 1" "vmap_offset + 1 - 0 \<le> popcount core_spills"
    by simp_all
  from spill_loop_result[OF this, of d 0] obtain j where
    j: "spill_loop d (vmap_offset + 1) core_spills 0 0 = Some (Inr (j + 1))"
    "odd (core_spills div 2 ^ j)" "popcount (core_spills mod 2 ^ j) = vmap_offset"
    by auto
  have "j < 32"
  proof (rule ccontr)
    assume "\<not> j < 32"
    then have "32 \<le> j" by simp
    then have "(2::nat) ^ 32 \<le> 2 ^ j" by (rule power_increasing) simp
    with assms(2) have "core_spills div 2 ^ j = 0" by simp
    with j(2) show False by simp
  qed
  with j(2,3) have "spilled_register core_spills vmap_offset = j"
    unfolding spilled_register_def popcount_low_bits
    using filter_nth_position[of "\<lambda>j. odd (core_spills div 2 ^ j)" j 32] by simp
  with j \<open>j < 32\<close> assms show ?thesis
    by (simp add: context_register_def)
qed

lemma TestBitmap_marks:
  "reg div 8 < length reg_bitmap \<Longrightarrow> TestBitmap reg reg_bitmap = Inr (bitmap_marks reg_bitmap reg)"
  by (simp add: TestBitmap_def bitmap_marks_def odd_iff_mod_2_eq_one)

lemma VisitFrame_register_result:
  assumes "reg div 8 < length reg_bitmap" "GetCoreSpillMask env (GetMethod f) < 2 ^ 32"
    and "case IsInContext env (GetMethod f) reg of
           Some vmap_offset \<Rightarrow> vmap_offset < popcount (GetCoreSpillMask env (GetMethod f))
         | None \<Rightarrow> True"
  shows "VisitFrame_register env f reg_bitmap reg roots =
     Some (Inr (roots @ filter (\<lambda>ref. ref \<noteq> NULL)
                          (map (reference_of env f) (filter (bitmap_marks reg_bitmap) [reg]))))"
proof (cases "bitmap_marks reg_bitmap reg")
  case False
  with assms(1) show ?thesis
    by (simp add: VisitFrame_register_def TestBitmap_marks Let_def)
next
  case True
  show ?thesis
  proof (cases "IsInContext env (GetMethod f) reg")
    case None
    with True assms(1) show ?thesis
      by (simp add: VisitFrame_register_def TestBitmap_marks reference_of_def report_def Let_def)
  next
    case (Some vmap_offset)
    with assms(3) have "vmap_offset < popcount (GetCoreSpillMask env (GetMethod f))" by simp
    from context_register_spilled[OF this assms(2)] Some True assms(1) show ?thesis
      by (simp add: VisitFrame_register_def TestBitmap_marks reference_of_def report_def Let_def)
  qed
qed

lemma VisitFrame_registers_result:
  assumes "GetCoreSpillMask env (GetMethod f) < 2 ^ 32"
    and "\<forall>reg \<in> set regs. reg div 8 < length reg_bitmap \<and>
          (case IsInContext env (GetMethod f) reg of
             Some vmap_offset \<Rightarrow> vmap_offset < popcount (GetCoreSpillMask env (GetMethod f))
           | None \<Rightarrow> True)"
  shows "VisitFrame_registers env f reg_bitmap regs roots =
     Some (Inr (roots @ filter (\<lambda>ref. ref \<noteq> NULL)
                          (map (reference_of env f) (filter (bitmap_marks reg_bitmap) regs))))"
  using assms(2)
proof (induction regs arbitrary: roots)
  case Nil
  then show ?case by simp
next
  case (Cons reg regs)
  from Cons.prems have r: "reg div 8 < length reg_bitmap"
    "case IsInContext env (GetMethod f) reg of
             Some vmap_offset \<Rightarrow> vmap_offset < popcount (GetCoreSpillMask env (GetMethod f))
           | None \<Rightarrow> True"
    by simp_all
  from Cons.prems have rest: "\<forall>reg \<in> set regs. reg div 8 < length reg_bitmap \<and>
          (case IsInContext env (GetMethod f) reg of
             Some vmap_offset \<Rightarrow> vmap_offset < popcount (GetCoreSpillMask env (GetMethod f))
           | None \<Rightarrow> True)"
    by simp
  show ?case
    by (simp add: VisitFrame_register_result[OF r(1) assms(1) r(2)] Cons.IH[OF rest])
qed

text \<open>
  C3: what \<open>VisitFrame\<close> of the root visitor reports for one frame. For a shadow frame
  it hands the callback to the shadow frame, which visits its own slots, and reports
  nothing else. For a compiled frame of a method that is neither native, nor a runtime
  method, nor a proxy (and that passes the \<^verbatim>\<open>CHECK\<close>s: \<open>compiled_frame_ok\<close>), the loop
  returns, and the roots reported are exactly the references of the dex registers that
  the bitmap of the frame's dex pc marks (among the registers below the bitmap's width
  and the method's register count), each read from the saved register of the context when
  the vmap table has it in context and from the frame's stack slot otherwise, the
  \<^verbatim>\<open>NULL\<close> ones left out, in ascending order of the register: one report for each marked
  register whose reference is not \<^verbatim>\<open>NULL\<close>, and none for an unmarked register.
\<close>

theorem ReferenceMapVisitor_reports_live_references:
  "(GetCurrentShadowFrame f \<noteq> NULL \<longrightarrow>
      ReferenceMapVisitor_VisitFrame env f roots =
        Some (Inr (roots @ ShadowFrame_VisitRoots env (GetCurrentShadowFrame f), True))) \<and>
   (compiled_frame_ok env f reg_bitmap \<longrightarrow>
      ReferenceMapVisitor_VisitFrame env f roots =
        Some (Inr (roots @ live_references env f reg_bitmap, True)) \<and>
      length (live_references env f reg_bitmap) =
        length (filter (\<lambda>reg. bitmap_marks reg_bitmap reg \<and> reference_of env f reg \<noteq> NULL)
                  [0..<min (RegWidth env (GetMethod f) * 8)
                           (registers_size env (GetCodeItem env (GetMethod f)))]))"
proof (intro conjI impI)
  assume "GetCurrentShadowFrame f \<noteq> NULL"
  then show "ReferenceMapVisitor_VisitFrame env f roots =
        Some (Inr (roots @ ShadowFrame_VisitRoots env (GetCurrentShadowFrame f), True))"
    by (simp add: ReferenceMapVisitor_VisitFrame_def)
next
  assume ok: "compiled_frame_ok env f reg_bitmap"
  let ?m = "GetMethod f"
  let ?n = "min (RegWidth env ?m * 8) (registers_size env (GetCodeItem env ?m))"
  from ok have w: "RegWidth env ?m \<le> length reg_bitmap" "GetCoreSpillMask env ?m < 2 ^ 32"
    and c: "\<forall>reg \<in> set [0..<?n]. case IsInContext env ?m reg of
                         Some vmap_offset \<Rightarrow> vmap_offset < popcount (GetCoreSpillMask env ?m)
                       | None \<Rightarrow> True"
    by (simp_all add: compiled_frame_ok_def Let_def list_all_iff)
  have "\<forall>reg \<in> set [0..<?n]. reg div 8 < length reg_bitmap \<and>
          (case IsInContext env ?m reg of
             Some vmap_offset \<Rightarrow> vmap_offset < popcount (GetCoreSpillMask env ?m)
           | None \<Rightarrow> True)"
  proof
    fix reg assume r: "reg \<in> set [0..<?n]"
    then have "reg < RegWidth env ?m * 8" by simp
    then have "reg div 8 < RegWidth env ?m" by (simp add: less_mult_imp_div_less)
    with w c r show "reg div 8 < length reg_bitmap \<and>
          (case IsInContext env ?m reg of
             Some vmap_offset \<Rightarrow> vmap_offset < popcount (GetCoreSpillMask env ?m)
           | None \<Rightarrow> True)"
      by auto
  qed
  from VisitFrame_registers_result[OF w(2) this, of roots] ok
  show "ReferenceMapVisitor_VisitFrame env f roots =
        Some (Inr (roots @ live_references env f reg_bitmap, True))"
    by (simp add: ReferenceMapVisitor_VisitFrame_def compiled_frame_ok_def Let_def
        live_references_def)
next
  show "length (live_references env f reg_bitmap) =
        length (filter (\<lambda>reg. bitmap_marks reg_bitmap reg \<and> reference_of env f reg \<noteq> NULL)
                  [0..<min (RegWidth env (GetMethod f) * 8)
                           (registers_size env (GetCodeItem env (GetMethod f)))])"
    by (simp add: live_references_def filter_map comp_def conj_commute)
qed

theorem ReferenceMapVisitor_reports_live_references_witness:
  "compiled_frame_ok example_root_env example_root_frame [13] \<and>
   ReferenceMapVisitor_VisitFrame example_root_env example_root_frame [] =
     Some (Inr ([1111, 4242], True)) \<and>
   GetCurrentShadowFrame (example_root_frame\<lparr> GetCurrentShadowFrame := 800 \<rparr>) \<noteq> NULL \<and>
   ReferenceMapVisitor_VisitFrame example_root_env
       (example_root_frame\<lparr> GetCurrentShadowFrame := 800 \<rparr>) [] =
     Some (Inr ([2222, 3333], True))"
proof -
  have u5: "[0..<5] = [0, 1, 2, 3, 4]"
    by (simp add: upt_conv_Cons)
  have u32: "[0..<32] = [0, 1, 2, 3, 4, 5, 6, 7, 8, 9, 10, 11, 12, 13, 14, 15, 16, 17, 18, 19,
      20, 21, 22, 23, 24, 25, 26, 27, 28, 29, 30, 31]"
    by (simp add: upt_conv_Cons)
  have pc: "popcount 176 = 3"
    by (simp add: popcount.simps[of "numeral k" for k] popcount.simps[of "Suc 0"])
  have sr: "spilled_register 176 (Suc 0) = 5"
    by (simp add: spilled_register_def u32)
  have ok: "compiled_frame_ok example_root_env example_root_frame [13]"
    by (simp add: compiled_frame_ok_def example_root_env_def example_root_frame_def NULL_def
        Let_def pc u5)
  have live: "live_references example_root_env example_root_frame [13] = [1111, 4242]"
    by (simp add: live_references_def example_root_env_def example_root_frame_def NULL_def
        reference_of_def bitmap_marks_def sr u5)
  have sf: "GetCurrentShadowFrame (example_root_frame\<lparr> GetCurrentShadowFrame := 800 \<rparr>) \<noteq> NULL"
    by (simp add: NULL_def)
  have vr: "ShadowFrame_VisitRoots example_root_env 800 = [2222, 3333]"
    by (simp add: example_root_env_def)
  from ReferenceMapVisitor_reports_live_references[of example_root_frame example_root_env
      "[]" "[13]"] ok live
  have 1: "ReferenceMapVisitor_VisitFrame example_root_env example_root_frame [] =
     Some (Inr ([1111, 4242], True))"
    by simp
  from ReferenceMapVisitor_reports_live_references[of
      "example_root_frame\<lparr> GetCurrentShadowFrame := 800 \<rparr>" example_root_env "[]" "[13]"] sf vr
  have 2: "ReferenceMapVisitor_VisitFrame example_root_env
       (example_root_frame\<lparr> GetCurrentShadowFrame := 800 \<rparr>) [] =
     Some (Inr ([2222, 3333], True))"
    by simp
  from ok 1 sf 2 show ?thesis by blast
qed

section \<open>Properties of \<^verbatim>\<open>SuspendForDebugger\<close>\<close>

lemma steady_phase:
  assumes env: "stuck_target_env env"
    and k: "k = (kTimeoutUs - tot + 255999) div 256000"
    and bound: "tot \<le> 30256000"
  shows "SuspendForDebugger_loop env n tot 256000 False did t waits =
     (case rolled_back env did t of
        Inl e \<Rightarrow> Some (Inl e)
      | Inr t2 \<Rightarrow> Some (Inr \<lparr> returned = None, timeout = True, target = t2,
                               waited = waits @ replicate k (Sleep 256000) \<rparr>))"
  using k bound
proof (induction k arbitrary: tot n waits)
  case 0
  then have "kTimeoutUs \<le> tot" by (simp add: kTimeoutUs_def)
  with env show ?case
    by (subst SuspendForDebugger_loop.simps)
       (simp add: stuck_target_env_def rolled_back_def split: sum.splits)
next
  case (Suc k)
  then have lt: "tot < kTimeoutUs" by (simp add: kTimeoutUs_def)
  then have t: "tot < 30000000" by (simp add: kTimeoutUs_def)
  have k': "k = (kTimeoutUs - (tot + 256000) + 255999) div 256000"
    using Suc.prems(1) t by (simp add: kTimeoutUs_def) 
  have b': "tot + 256000 \<le> 30256000" using t by simp
  have m: "(tot + 256000) mod 4294967296 = tot + 256000" using t by simp
  have "SuspendForDebugger_loop env n tot 256000 False did t waits =
        SuspendForDebugger_loop env (n + 1) (tot + 256000) 256000 False did t
          (waits @ [Sleep 256000])"
    using env lt m
    by (subst SuspendForDebugger_loop.simps) (simp add: stuck_target_env_def)
  also note Suc.IH[OF k' b', of "n + 1" "waits @ [Sleep 256000]"]
  finally show ?case
    by (simp add: replicate_app_Cons_same split: sum.splits)
qed

lemma slept_append: "slept (xs @ ys) = slept xs + slept ys"
  by (induction xs rule: slept.induct) simp_all

lemma slept_replicate: "slept (replicate k (Sleep d)) = k * d"
  by (induction k) simp_all

lemma doubling_step:
  assumes env: "stuck_target_env env"
    and d: "0 < d" "d * 2 < 500000" and t: "tot < kTimeoutUs"
  shows "SuspendForDebugger_loop env n tot d False did t waits =
         SuspendForDebugger_loop env (Suc n) (tot + d * 2) (d * 2) False did t
           (waits @ [Sleep (d * 2)])"
proof -
  from d have m: "(d * 2) mod 4294967296 = d * 2" by simp
  from d t have m2: "(tot + d * 2) mod 4294967296 = tot + d * 2"
    by (simp add: kTimeoutUs_def)
  show ?thesis
    using env d t m m2
    by (subst SuspendForDebugger_loop.simps) (simp add: stuck_target_env_def)
qed

lemma first_poll:
  assumes env: "stuck_target_env env"
  shows "SuspendForDebugger_loop env 0 0 0 request False t [] =
     (case (if request then ModifySuspendCount_locked env 1 True t else Inr t) of
        Inl e \<Rightarrow> Some (Inl e)
      | Inr t1 \<Rightarrow> SuspendForDebugger_loop env (Suc 0) 0 500 False request t1 [Yield])"
  using env
  by (subst SuspendForDebugger_loop.simps)
     (simp add: stuck_target_env_def kTimeoutUs_def split: sum.splits)

lemma after_first_poll:
  assumes env: "stuck_target_env env"
  shows "SuspendForDebugger_loop env n 0 500 False did t [Yield] =
     (case rolled_back env did t of
        Inl e \<Rightarrow> Some (Inl e)
      | Inr t2 \<Rightarrow> Some (Inr \<lparr> returned = None, timeout = True, target = t2,
          waited = Yield # map Sleep ([1000, 2000, 4000, 8000, 16000, 32000, 64000, 128000,
                                        256000] @ replicate 116 256000) \<rparr>))"
proof -
  note s = doubling_step[OF env]
  have "\<exists>m. SuspendForDebugger_loop env n 0 500 False did t [Yield] =
        SuspendForDebugger_loop env m 511000 256000 False did t
          ([Yield] @ map Sleep [1000, 2000, 4000, 8000, 16000, 32000, 64000, 128000, 256000])"
    by (simp add: s kTimeoutUs_def) (rule exI, rule refl)
  then obtain m where "SuspendForDebugger_loop env n 0 500 False did t [Yield] =
        SuspendForDebugger_loop env m 511000 256000 False did t
          ([Yield] @ map Sleep [1000, 2000, 4000, 8000, 16000, 32000, 64000, 128000, 256000])"
    by blast
  also have "\<dots> = (case rolled_back env did t of
        Inl e \<Rightarrow> Some (Inl e)
      | Inr t2 \<Rightarrow> Some (Inr \<lparr> returned = None, timeout = True, target = t2,
          waited = ([Yield] @ map Sleep [1000, 2000, 4000, 8000, 16000, 32000, 64000, 128000,
                        256000]) @ replicate 116 (Sleep 256000) \<rparr>))"
    by (rule steady_phase[OF env]) (simp_all add: kTimeoutUs_def)
  finally show ?thesis by (simp split: sum.splits)
qed

lemma increment_then_rollback:
  assumes "suspend_invariant t" "suspend_count t < 2 ^ 31 - 1"
  shows "\<exists>t1. ModifySuspendCount_locked env 1 True t = Inr t1 \<and>
              ModifySuspendCount_locked env (-1) True t1 = Inr t"
  using assms
  by (simp add: ModifySuspendCount_locked_def ModifySuspendCount_def suspend_invariant_def
      in_int_range_def)

text \<open>
  C7: on a target that never reports itself suspended (and is found at every poll, is
  not the calling thread, with no mutex held by the caller when it sleeps), whose
  counters satisfy the invariant and are below the largest \<^verbatim>\<open>int\<close>, the loop of
  \<open>SuspendForDebugger\<close> returns: the result is \<^verbatim>\<open>NULL\<close> with \<^verbatim>\<open>*timeout\<close> set, no abort; the
  target is left exactly as it was, whether or not the call made a suspend request; the
  first wait is a \<^verbatim>\<open>sched_yield\<close>, the sleeps after it double from 1000 to 256000
  microseconds (below 0.5 seconds) and stay there; and the time slept when the call
  gives up, 30207000 microseconds, has passed the 30 seconds of \<open>kTimeoutUs\<close>.
\<close>

theorem SuspendForDebugger_times_out:
  assumes env: "stuck_target_env env"
    and inv: "suspend_invariant t" and range: "suspend_count t < 2 ^ 31 - 1"
  shows "SuspendForDebugger env request t =
     Some (Inr \<lparr> returned = None, timeout = True, target = t,
       waited = Yield # map Sleep ([1000, 2000, 4000, 8000, 16000, 32000, 64000, 128000,
                                      256000] @ replicate 116 256000) \<rparr>) \<and>
     kTimeoutUs \<le> slept (Yield # map Sleep ([1000, 2000, 4000, 8000, 16000, 32000, 64000,
                                      128000, 256000] @ replicate 116 256000))"
proof -
  from increment_then_rollback[OF inv range, of env] obtain t1 where
    t1: "ModifySuspendCount_locked env 1 True t = Inr t1"
        "ModifySuspendCount_locked env (-1) True t1 = Inr t"
    by blast
  have run: "SuspendForDebugger env request t =
     Some (Inr \<lparr> returned = None, timeout = True, target = t,
       waited = Yield # map Sleep ([1000, 2000, 4000, 8000, 16000, 32000, 64000, 128000,
                                      256000] @ replicate 116 256000) \<rparr>)"
  proof (cases request)
    case True
    with t1 show ?thesis
      by (simp add: SuspendForDebugger_def first_poll[OF env] after_first_poll[OF env]
          rolled_back_def)
  next
    case False
    then show ?thesis
      by (simp add: SuspendForDebugger_def first_poll[OF env] after_first_poll[OF env]
          rolled_back_def)
  qed
  have "slept (Yield # map Sleep ([1000, 2000, 4000, 8000, 16000, 32000, 64000,
                                      128000, 256000] @ replicate 116 256000)) = 30207000"
    by (simp add: slept_append slept_replicate map_replicate)
  with run show ?thesis by (simp add: kTimeoutUs_def)
qed

theorem SuspendForDebugger_times_out_witness:
  "stuck_target_env example_poll_env \<and> suspend_invariant busy_thread \<and>
   SuspendForDebugger example_poll_env True busy_thread =
     Some (Inr \<lparr> returned = None, timeout = True, target = busy_thread,
       waited = Yield # map Sleep ([1000, 2000, 4000, 8000, 16000, 32000, 64000, 128000,
                                      256000] @ replicate 116 256000) \<rparr>)"
proof -
  have e: "stuck_target_env example_poll_env"
    by (simp add: stuck_target_env_def example_poll_env_def)
  have i: "suspend_invariant busy_thread"
    by (simp add: suspend_invariant_def busy_thread_def new_Thread_def)
  have r: "suspend_count busy_thread < 2 ^ 31 - 1"
    by (simp add: busy_thread_def new_Thread_def)
  from SuspendForDebugger_times_out[OF e i r, of True] e i show ?thesis by blast
qed

section \<open>Properties of \<^verbatim>\<open>TransitionFromSuspendedToRunnable\<close>\<close>

lemma ModifySuspendCount_keeps_state:
  "ModifySuspendCount env delta fd t = Inr t' \<Longrightarrow> state t' = state t"
  by (auto simp: ModifySuspendCount_def split: if_splits)

lemma invariant_start: "call_starts s \<Longrightarrow> transition_invariant s"
  by (simp add: call_starts_def transition_invariant_def holds_lock_at_def
      before_SharedLock_def)

lemma invariant_this_thread_step:
  assumes "transition_invariant s" "this_thread_step s = Some s'"
  shows "transition_invariant s'"
  using assms
  by (cases "pc s")
     ((clarsimp simp: this_thread_step_def transition_invariant_def holds_lock_at_def
        before_SharedLock_def split: if_splits)+)

lemma invariant_step:
  assumes "transition_invariant s" "step env a s = Some s'"
  shows "transition_invariant s'"
proof (cases a)
  case This_thread_steps
  with assms show ?thesis
    by (simp add: step_def invariant_this_thread_step)
next
  case (Other_ModifySuspendCount delta fd)
  with assms obtain t where
    t: "ModifySuspendCount (env\<lparr> suspend_count_lock_held := True \<rparr>) delta fd (this_thread s) = Inr t"
    and s': "s' = s\<lparr> this_thread := t \<rparr>" and l: "suspend_count_lock s = Some Another_thread"
    by (auto simp: step_def split: if_splits sum.splits)
  from ModifySuspendCount_keeps_state[OF t] assms(1) s' l show ?thesis
    by (clarsimp simp: transition_invariant_def holds_lock_at_def)
next
  case Woken
  with assms show ?thesis
    by (clarsimp simp: step_def transition_invariant_def holds_lock_at_def before_SharedLock_def
        split: if_splits)
next
  case Other_locks
  with assms show ?thesis
    by (clarsimp simp: step_def transition_invariant_def split: if_splits)
next
  case Other_unlocks
  with assms show ?thesis
    by (clarsimp simp: step_def transition_invariant_def split: if_splits)
next
  case Collector_locks
  with assms show ?thesis
    by (clarsimp simp: step_def transition_invariant_def split: if_splits)
next
  case Collector_unlocks
  with assms show ?thesis
    by (clarsimp simp: step_def transition_invariant_def split: if_splits)
qed

lemma invariant_execute:
  "transition_invariant s \<Longrightarrow> execute env as s = Some s' \<Longrightarrow> transition_invariant s'"
proof (induction as arbitrary: s)
  case Nil
  then show ?case by simp
next
  case (Cons a as)
  from Cons.prems(2) obtain s1 where 1: "step env a s = Some s1"
    and 2: "execute env as s1 = Some s'"
    by (auto split: option.splits)
  from Cons.IH[OF invariant_step[OF Cons.prems(1) 1] 2] show ?case .
qed

lemma old_state_step:
  assumes "step env a s = Some s'"
    and "if pc s = Entry then state (this_thread s) = st else old_state s = st"
  shows "if pc s' = Entry then state (this_thread s') = st else old_state s' = st"
proof (cases a)
  case This_thread_steps
  with assms show ?thesis
    by (cases "pc s") (auto simp: step_def this_thread_step_def split: if_splits)
next
  case (Other_ModifySuspendCount delta fd)
  with assms show ?thesis
    by (auto simp: step_def split: if_splits sum.splits dest: ModifySuspendCount_keeps_state)
qed (insert assms, auto simp: step_def split: if_splits)

lemma old_state_execute:
  "execute env as s = Some s' \<Longrightarrow>
   (if pc s = Entry then state (this_thread s) = st else old_state s = st) \<Longrightarrow>
   (if pc s' = Entry then state (this_thread s') = st else old_state s' = st)"
proof (induction as arbitrary: s)
  case Nil
  then show ?case by auto
next
  case (Cons a as)
  from Cons.prems(1) obtain s1 where 1: "step env a s = Some s1"
    and 2: "execute env as s1 = Some s'"
    by (auto split: option.splits)
  from Cons.IH[OF 2 old_state_step[OF 1 Cons.prems(2)]] show ?case .
qed

lemma becomes_runnable_step:
  assumes "step env a s = Some s'" "state (this_thread s) \<noteq> kRunnable"
    "state (this_thread s') = kRunnable"
  shows "a = This_thread_steps \<and> pc s = SetRunnable \<and>
         suspend_count (this_thread s') = suspend_count (this_thread s)"
proof (cases a)
  case This_thread_steps
  with assms show ?thesis
    by (cases "pc s") (auto simp: step_def this_thread_step_def split: if_splits)
next
  case (Other_ModifySuspendCount delta fd)
  with assms show ?thesis
    by (auto simp: step_def split: if_splits sum.splits dest: ModifySuspendCount_keeps_state)
qed (insert assms, auto simp: step_def split: if_splits)

lemma sets_done_step:
  assumes "step env a s = Some s'" "\<not> loop_done s" "loop_done s'"
  shows "a = This_thread_steps \<and> pc s = SetRunnable"
proof (cases a)
  case This_thread_steps
  with assms show ?thesis
    by (cases "pc s") (auto simp: step_def this_thread_step_def split: if_splits)
qed (insert assms, auto simp: step_def split: if_splits sum.splits)

text \<open>
  C2: in every state \<open>s\<close> that an execution of the call reaches, under any schedule of
  the calling thread and the other threads: a step that makes the thread's state
  \<^verbatim>\<open>kRunnable\<close> is the calling thread's own \<^verbatim>\<open>SetState(kRunnable)\<close>, taken while it holds
  the suspend-count lock and with \<open>suspend_count = 0\<close> before and after; the check and the
  flip are both made under that lock, and the count is still 0 at the flip whatever the
  other threads did in between; \<^verbatim>\<open>done\<close> is set only there; the function has returned
  only with \<^verbatim>\<open>done\<close> set, the state \<^verbatim>\<open>kRunnable\<close>, and the state it met on entry as its
  result; and while it waits on the condition variable the thread holds neither a share of
  the mutator lock nor the suspend-count lock.
\<close>

theorem TransitionFromSuspendedToRunnable_safety:
  assumes start: "call_starts s0" and run: "execute env as s0 = Some s"
  shows "(\<forall>a s'. step env a s = Some s' \<and> state (this_thread s) \<noteq> kRunnable \<and>
                  state (this_thread s') = kRunnable \<longrightarrow>
             a = This_thread_steps \<and> pc s = SetRunnable \<and>
             suspend_count_lock s = Some This_thread \<and>
             suspend_count (this_thread s) = 0 \<and> suspend_count (this_thread s') = 0) \<and>
         (pc s = Check \<or> pc s = SetRunnable \<longrightarrow> suspend_count_lock s = Some This_thread) \<and>
         (pc s = SetRunnable \<longrightarrow> suspend_count (this_thread s) = 0) \<and>
         (\<forall>a s'. step env a s = Some s' \<and> \<not> loop_done s \<and> loop_done s' \<longrightarrow>
             suspend_count_lock s = Some This_thread \<and> suspend_count (this_thread s) = 0) \<and>
         (pc s = Return \<longrightarrow>
             loop_done s \<and> state (this_thread s) = kRunnable \<and>
             old_state s = state (this_thread s0)) \<and>
         (pc s = Waiting \<longrightarrow>
             \<not> mutator_lock_shared s \<and> suspend_count_lock s \<noteq> Some This_thread)"
proof -
  from invariant_execute[OF invariant_start[OF start] run]
  have inv: "transition_invariant s" .
  then have lock: "(suspend_count_lock s = Some This_thread) = holds_lock_at (pc s)"
    and zero: "pc s = SetRunnable \<longrightarrow> suspend_count (this_thread s) = 0"
    and share: "mutator_lock_shared s =
        (\<not> before_SharedLock (pc s) \<and> (pc s = Unlock2 \<longrightarrow> loop_done s))"
    and dn: "loop_done s = (state (this_thread s) = kRunnable)"
    and ret: "pc s = Return \<longrightarrow> loop_done s"
    unfolding transition_invariant_def by blast+
  from start have "if pc s0 = Entry then state (this_thread s0) = state (this_thread s0)
                   else old_state s0 = state (this_thread s0)"
    by (simp add: call_starts_def)
  from old_state_execute[OF run this]
  have old: "pc s = Return \<longrightarrow> old_state s = state (this_thread s0)"
    by (auto split: if_splits)
  have 1: "\<forall>a s'. step env a s = Some s' \<and> state (this_thread s) \<noteq> kRunnable \<and>
                  state (this_thread s') = kRunnable \<longrightarrow>
             a = This_thread_steps \<and> pc s = SetRunnable \<and>
             suspend_count_lock s = Some This_thread \<and>
             suspend_count (this_thread s) = 0 \<and> suspend_count (this_thread s') = 0"
    using lock zero by (auto dest!: becomes_runnable_step simp: holds_lock_at_def)
  have 2: "pc s = Check \<or> pc s = SetRunnable \<longrightarrow> suspend_count_lock s = Some This_thread"
    using lock by (auto simp: holds_lock_at_def)
  have 4: "\<forall>a s'. step env a s = Some s' \<and> \<not> loop_done s \<and> loop_done s' \<longrightarrow>
             suspend_count_lock s = Some This_thread \<and> suspend_count (this_thread s) = 0"
    using lock zero by (auto dest!: sets_done_step simp: holds_lock_at_def)
  have 5: "pc s = Return \<longrightarrow>
             loop_done s \<and> state (this_thread s) = kRunnable \<and>
             old_state s = state (this_thread s0)"
    using ret dn old by auto
  have 6: "pc s = Waiting \<longrightarrow>
             \<not> mutator_lock_shared s \<and> suspend_count_lock s \<noteq> Some This_thread"
    using lock share by (auto simp: holds_lock_at_def before_SharedLock_def)
  from 1 2 zero 4 5 6 show ?thesis by blast
qed

theorem TransitionFromSuspendedToRunnable_safety_witness:
  "call_starts suspended_call \<and>
   execute example_env (take 5 resume_schedule) suspended_call =
     Some (suspended_call\<lparr> pc := Waiting \<rparr>) \<and>
   \<not> mutator_lock_shared (suspended_call\<lparr> pc := Waiting \<rparr>) \<and>
   execute example_env resume_schedule suspended_call =
     Some (suspended_call\<lparr> pc := SetRunnable,
             this_thread := (this_thread suspended_call)\<lparr> suspend_count := 0 \<rparr>,
             suspend_count_lock := Some This_thread, mutator_lock_shared := True \<rparr>) \<and>
   suspend_count (this_thread (suspended_call\<lparr> pc := SetRunnable,
             this_thread := (this_thread suspended_call)\<lparr> suspend_count := 0 \<rparr>,
             suspend_count_lock := Some This_thread, mutator_lock_shared := True \<rparr>)) = 0"
proof -
  let ?w = "suspended_call\<lparr> pc := Waiting \<rparr>"
  let ?r = "suspended_call\<lparr> pc := SetRunnable,
             this_thread := (this_thread suspended_call)\<lparr> suspend_count := 0 \<rparr>,
             suspend_count_lock := Some This_thread, mutator_lock_shared := True \<rparr>"
  note run_defs = resume_schedule_def suspended_call_def step_def this_thread_step_def
      example_env_def ModifySuspendCount_def new_Thread_def in_int_range_def
      IsStillStarting_def kThreadNameDuringStartup_def
  have st: "call_starts suspended_call"
    by (simp add: call_starts_def suspended_call_def new_Thread_def)
  have w: "execute example_env (take 5 resume_schedule) suspended_call = Some ?w"
    by (simp add: run_defs)
  have r: "execute example_env resume_schedule suspended_call = Some ?r"
    by (simp add: run_defs)
  from TransitionFromSuspendedToRunnable_safety[OF st w]
  have 1: "\<not> mutator_lock_shared ?w" by simp
  from TransitionFromSuspendedToRunnable_safety[OF st r]
  have 2: "suspend_count (this_thread ?r) = 0" by simp
  from st w r 1 2 show ?thesis by blast
qed

end
